theory Spec2Isabelle
  imports
    Complex_Main
    "HOL-Library.Multiset"
    "HOL-Library.Char_ord"
    "HOL-Library.List_Lexorder"
    "HOL-Library.Product_Lexorder"
    "HOL-Library.AList"
    "HOL-Library.Log_Nat"
begin

section \<open>Strings\<close>

text \<open>
  A JavaScript string is a sequence of UTF-16 code units. The model uses \<open>string\<close>, whose
  characters are the code units below 256 (Latin-1). \<open>trim\<close> removes the WhiteSpace and
  LineTerminator code units of ECMA-262 that lie in that range from both ends, and
  \<open>toLowerCase\<close> maps the upper-case letters of that range (A-Z, U+00C0-U+00D6,
  U+00D8-U+00DE) to the letter 32 code units above, which is setting bit 5.
\<close>

definition is_space :: "char \<Rightarrow> bool" where
  "is_space c = ((of_char c :: nat) \<in> {0x09, 0x0A, 0x0B, 0x0C, 0x0D, 0x20, 0xA0})"

definition trim :: "string \<Rightarrow> string" where
  "trim s = rev (dropWhile is_space (rev (dropWhile is_space s)))"

definition is_upper :: "char \<Rightarrow> bool" where
  "is_upper c =
     (let n = (of_char c :: nat)
      in (0x41 \<le> n \<and> n \<le> 0x5A) \<or> (0xC0 \<le> n \<and> n \<le> 0xD6) \<or> (0xD8 \<le> n \<and> n \<le> 0xDE))"

fun set_bit5 :: "char \<Rightarrow> char" where
  "set_bit5 (Char b0 b1 b2 b3 b4 b5 b6 b7) = Char b0 b1 b2 b3 b4 True b6 b7"

definition toLowerCase :: "string \<Rightarrow> string" where
  "toLowerCase s = map (\<lambda>c. if is_upper c then set_bit5 c else c) s"

section \<open>The data model\<close>

text \<open>
  A habit is the object literal built in \<open>addHabit\<close>:
  \<^verbatim>\<open>{ id: Date.now(), name: name, time: time || 'Anytime', completed: false }\<close>.
  The field \<open>id\<close> is called \<open>habit_id\<close> here, since \<open>id\<close> is the identity function of HOL.
\<close>

record habit =
  habit_id :: int
  name :: string
  time :: string
  completed :: bool

text \<open>
  The module-level state: \<^verbatim>\<open>let habits = []; let totalPoints = 0;\<close> and the
  \<^verbatim>\<open>'habitsData'\<close> slot of localStorage (\<open>None\<close> is what \<^verbatim>\<open>getItem\<close> reports as
  \<^verbatim>\<open>null\<close>). Writes to the slot always succeed in the model (no storage quota).
\<close>

record state =
  habits :: "habit list"
  totalPoints :: int
  storage :: "string option"

definition POINTS_PER_HABIT :: int where
  "POINTS_PER_HABIT = 10"

definition init_state :: state where
  "init_state = \<lparr>habits = [], totalPoints = 0, storage = None\<rparr>"

text \<open>
  What an operation can end in besides a new state. \<open>SyntaxError\<close> and \<open>TypeError\<close> are
  the uncaught JavaScript exceptions of the source; \<open>ValidationError\<close> and
  \<open>DuplicateError\<close> name the two alerts after which \<open>addHabit\<close> returns early.
  \<open>Unmodelled\<close> marks stored text that denotes a value the typed model has no state for
  (a string with a code unit above 255, or a \<open>habits\<close> array with an element that is not
  a habit record as \<open>saveData\<close> writes it); \<open>OutOfFuel\<close> is the parser's recursion bound,
  shown below never to be reached.
\<close>

datatype error =
  ValidationError | DuplicateError | SyntaxError | TypeError | Unmodelled | OutOfFuel

section \<open>JSON\<close>

text \<open>
  The values \<^verbatim>\<open>JSON.parse\<close> produces. A number is kept as the exact rational its
  literal denotes; JavaScript's doubles agree with it on the integers of magnitude below
  \<open>2^53\<close>, which are the only numbers this program writes.
\<close>

datatype json =
  JNull | JBool bool | JNum rat | JStr string | JArr "json list" | JObj "(string \<times> json) list"

subsection \<open>JSON.stringify of the saved object\<close>

definition digit_char :: "nat \<Rightarrow> char" where
  "digit_char n = ''0123456789abcdef'' ! n"

fun dec_digits :: "nat \<Rightarrow> string" where
  "dec_digits n = (if n < 10 then [digit_char n] else dec_digits (n div 10) @ [digit_char (n mod 10)])"

declare dec_digits.simps [simp del]

text \<open>
  Number::toString of an integer of magnitude below \<open>10^21\<close>: its decimal digits. The ids
  the page makes are values of \<^verbatim>\<open>Date.now()\<close>, integers below \<open>8.64 * 10^15\<close>; from
  \<open>10^21\<close> on JavaScript writes an exponent, and an integer above \<open>2^53\<close> need not be a
  double, which the model, whose ids are unbounded integers, does not follow.
\<close>

definition number_text :: "int \<Rightarrow> string" where
  "number_text i = (if i < 0 then CHR ''-'' # dec_digits (nat (- i)) else dec_digits (nat i))"

text \<open>QuoteJSONString of ECMA-262, on code units below 256.\<close>

definition json_escape :: "char \<Rightarrow> string" where
  "json_escape c =
     (if c = CHR 0x08 then [CHR 0x5C, CHR ''b'']
      else if c = CHR 0x09 then [CHR 0x5C, CHR ''t'']
      else if c = CHR 0x0A then [CHR 0x5C, CHR ''n'']
      else if c = CHR 0x0C then [CHR 0x5C, CHR ''f'']
      else if c = CHR 0x0D then [CHR 0x5C, CHR ''r'']
      else if c = CHR 0x22 then [CHR 0x5C, CHR 0x22]
      else if c = CHR 0x5C then [CHR 0x5C, CHR 0x5C]
      else if (of_char c :: nat) < 0x20 then
        [CHR 0x5C, CHR ''u'', CHR ''0'', CHR ''0'',
         digit_char (of_char c div 16), digit_char (of_char c mod 16)]
      else [c])"

definition quote_text :: "string \<Rightarrow> string" where
  "quote_text s = CHR 0x22 # concat (map json_escape s) @ [CHR 0x22]"

definition bool_text :: "bool \<Rightarrow> string" where
  "bool_text b = (if b then ''true'' else ''false'')"

definition habit_text :: "habit \<Rightarrow> string" where
  "habit_text h =
     ''{'' @ quote_text ''id'' @ '':'' @ number_text (habit_id h) @
     '','' @ quote_text ''name'' @ '':'' @ quote_text (name h) @
     '','' @ quote_text ''time'' @ '':'' @ quote_text (time h) @
     '','' @ quote_text ''completed'' @ '':'' @ bool_text (completed h) @ ''}''"

fun join_comma :: "string list \<Rightarrow> string" where
  "join_comma [] = []"
| "join_comma [x] = x"
| "join_comma (x # y # ys) = x @ '','' @ join_comma (y # ys)"

text \<open>
  \<^verbatim>\<open>JSON.stringify({ lastVisitDate: ..., habits: habits })\<close>: the properties in creation
  order, no white space.
\<close>

definition JSON_stringify :: "string \<Rightarrow> habit list \<Rightarrow> string" where
  "JSON_stringify lastVisitDate hs =
     ''{'' @ quote_text ''lastVisitDate'' @ '':'' @ quote_text lastVisitDate @
     '','' @ quote_text ''habits'' @ '':'' @ ''['' @ join_comma (map habit_text hs) @ '']'' @ ''}''"

subsection \<open>JSON.parse\<close>

definition is_ws :: "char \<Rightarrow> bool" where
  "is_ws c = (c = CHR 0x20 \<or> c = CHR 0x09 \<or> c = CHR 0x0A \<or> c = CHR 0x0D)"

definition skip_ws :: "string \<Rightarrow> string" where
  "skip_ws s = dropWhile is_ws s"

definition is_digit :: "char \<Rightarrow> bool" where
  "is_digit c = (CHR ''0'' \<le> c \<and> c \<le> CHR ''9'')"

definition digit_val :: "char \<Rightarrow> nat" where
  "digit_val c = of_char c - 48"

definition digits_val :: "string \<Rightarrow> nat" where
  "digits_val s = foldl (\<lambda>a c. 10 * a + digit_val c) 0 s"

definition hex_val :: "char \<Rightarrow> nat option" where
  "hex_val c =
     (if is_digit c then Some (of_char c - 48)
      else if CHR ''a'' \<le> c \<and> c \<le> CHR ''f'' then Some (of_char c - 87)
      else if CHR ''A'' \<le> c \<and> c \<le> CHR ''F'' then Some (of_char c - 55)
      else None)"

definition unescape :: "char \<Rightarrow> char option" where
  "unescape e =
     (if e = CHR 0x22 then Some (CHR 0x22)
      else if e = CHR 0x5C then Some (CHR 0x5C)
      else if e = CHR ''/'' then Some (CHR ''/'')
      else if e = CHR ''b'' then Some (CHR 0x08)
      else if e = CHR ''f'' then Some (CHR 0x0C)
      else if e = CHR ''n'' then Some (CHR 0x0A)
      else if e = CHR ''r'' then Some (CHR 0x0D)
      else if e = CHR ''t'' then Some (CHR 0x09)
      else None)"

definition cons_char :: "char \<Rightarrow> error + (string \<times> string) \<Rightarrow> error + (string \<times> string)" where
  "cons_char c p = (case p of Inl e \<Rightarrow> Inl e | Inr (s, r) \<Rightarrow> Inr (c # s, r))"

text \<open>The characters of a string literal after its opening quote, and the text after it.\<close>

fun parse_chars :: "string \<Rightarrow> error + (string \<times> string)" where
  "parse_chars [] = Inl SyntaxError"
| "parse_chars (c # cs) =
     (if c = CHR 0x22 then Inr ([], cs)
      else if c = CHR 0x5C then
        (case cs of
           [] \<Rightarrow> Inl SyntaxError
         | e # r \<Rightarrow>
             if e = CHR ''u'' then
               (case r of
                  h1 # h2 # h3 # h4 # r' \<Rightarrow>
                    (case (hex_val h1, hex_val h2, hex_val h3, hex_val h4) of
                       (Some a, Some b, Some hi, Some lo) \<Rightarrow>
                         if a = 0 \<and> b = 0 then cons_char (char_of (16 * hi + lo)) (parse_chars r')
                         else Inl Unmodelled
                     | _ \<Rightarrow> Inl SyntaxError)
                | _ \<Rightarrow> Inl SyntaxError)
             else
               (case unescape e of
                  Some ch \<Rightarrow> cons_char ch (parse_chars r)
                | None \<Rightarrow> Inl SyntaxError))
      else if (of_char c :: nat) < 0x20 then Inl SyntaxError
      else cons_char c (parse_chars cs))"

text \<open>
  A number literal: \<open>-? (0 | [1-9][0-9]*) (. [0-9]+)? ([eE] [+-]? [0-9]+)?\<close>.
\<close>

definition parse_frac :: "string \<Rightarrow> error + (rat \<times> string)" where
  "parse_frac s =
     (case s of
        c # r \<Rightarrow>
          if c = CHR ''.'' then
            (let fp = takeWhile is_digit r
             in if fp = [] then Inl SyntaxError
                else Inr (of_nat (digits_val fp) / 10 ^ length fp, dropWhile is_digit r))
          else Inr (0, s)
      | [] \<Rightarrow> Inr (0, s))"

definition parse_exp :: "string \<Rightarrow> error + (int \<times> string)" where
  "parse_exp s =
     (case s of
        c # r \<Rightarrow>
          if c = CHR ''e'' \<or> c = CHR ''E'' then
            (let (neg, r1) =
                   (case r of
                      d # r' \<Rightarrow>
                        if d = CHR ''-'' then (True, r')
                        else if d = CHR ''+'' then (False, r')
                        else (False, r)
                    | [] \<Rightarrow> (False, r));
                 ep = takeWhile is_digit r1
             in if ep = [] then Inl SyntaxError
                else Inr (if neg then - int (digits_val ep) else int (digits_val ep),
                          dropWhile is_digit r1))
          else Inr (0, s)
      | [] \<Rightarrow> Inr (0, s))"

definition scale10 :: "rat \<Rightarrow> int \<Rightarrow> rat" where
  "scale10 m e = (if 0 \<le> e then m * 10 ^ nat e else m / 10 ^ nat (- e))"

definition parse_number :: "string \<Rightarrow> error + (rat \<times> string)" where
  "parse_number s =
     (let (neg, s1) =
            (case s of
               c # r \<Rightarrow> if c = CHR ''-'' then (True, r) else (False, s)
             | [] \<Rightarrow> (False, s));
          ip = takeWhile is_digit s1
      in if ip = [] \<or> (hd ip = CHR ''0'' \<and> tl ip \<noteq> []) then Inl SyntaxError
         else
           (case parse_frac (dropWhile is_digit s1) of
              Inl e \<Rightarrow> Inl e
            | Inr (fr, s2) \<Rightarrow>
                (case parse_exp s2 of
                   Inl e \<Rightarrow> Inl e
                 | Inr (ex, s3) \<Rightarrow>
                     Inr (scale10 ((if neg then - 1 else 1) * (of_nat (digits_val ip) + fr)) ex,
                          s3))))"

definition literal :: "string \<Rightarrow> string \<Rightarrow> string option" where
  "literal p s = (if take (length p) s = p then Some (drop (length p) s) else None)"

text \<open>
  The recursive descent over values, array elements and object members. The first
  argument bounds the recursion depth; \<open>JSON_parse\<close> supplies a bound that is never
  reached (\<open>JSON_parse_fuel\<close> below). A repeated key keeps its first position and takes
  the last value, as the property of a JavaScript object does.
\<close>

fun parse_value :: "nat \<Rightarrow> string \<Rightarrow> error + (json \<times> string)"
  and parse_elements :: "nat \<Rightarrow> json list \<Rightarrow> string \<Rightarrow> error + (json \<times> string)"
  and parse_members :: "nat \<Rightarrow> (string \<times> json) list \<Rightarrow> string \<Rightarrow> error + (json \<times> string)"
where
  "parse_value 0 s = Inl OutOfFuel"
| "parse_value (Suc n) s =
     (case skip_ws s of
        [] \<Rightarrow> Inl SyntaxError
      | c # cs \<Rightarrow>
          if c = CHR ''{'' then
            (case skip_ws cs of
               [] \<Rightarrow> Inl SyntaxError
             | d # r \<Rightarrow> if d = CHR ''}'' then Inr (JObj [], r) else parse_members n [] (d # r))
          else if c = CHR ''['' then
            (case skip_ws cs of
               [] \<Rightarrow> Inl SyntaxError
             | d # r \<Rightarrow> if d = CHR '']'' then Inr (JArr [], r) else parse_elements n [] (d # r))
          else if c = CHR 0x22 then
            (case parse_chars cs of
               Inl e \<Rightarrow> Inl e
             | Inr (str, r) \<Rightarrow> Inr (JStr str, r))
          else if c = CHR ''-'' \<or> is_digit c then
            (case parse_number (c # cs) of
               Inl e \<Rightarrow> Inl e
             | Inr (q, r) \<Rightarrow> Inr (JNum q, r))
          else
            (case literal ''true'' (c # cs) of
               Some r \<Rightarrow> Inr (JBool True, r)
             | None \<Rightarrow>
                 (case literal ''false'' (c # cs) of
                    Some r \<Rightarrow> Inr (JBool False, r)
                  | None \<Rightarrow>
                      (case literal ''null'' (c # cs) of
                         Some r \<Rightarrow> Inr (JNull, r)
                       | None \<Rightarrow> Inl SyntaxError))))"
| "parse_elements 0 acc s = Inl OutOfFuel"
| "parse_elements (Suc n) acc s =
     (case parse_value n s of
        Inl e \<Rightarrow> Inl e
      | Inr (v, r) \<Rightarrow>
          (case skip_ws r of
             [] \<Rightarrow> Inl SyntaxError
           | d # r' \<Rightarrow>
               if d = CHR '','' then parse_elements n (acc @ [v]) r'
               else if d = CHR '']'' then Inr (JArr (acc @ [v]), r')
               else Inl SyntaxError))"
| "parse_members 0 acc s = Inl OutOfFuel"
| "parse_members (Suc n) acc s =
     (case skip_ws s of
        [] \<Rightarrow> Inl SyntaxError
      | q # cs \<Rightarrow>
          if q \<noteq> CHR 0x22 then Inl SyntaxError
          else
            (case parse_chars cs of
               Inl e \<Rightarrow> Inl e
             | Inr (k, r) \<Rightarrow>
                 (case skip_ws r of
                    [] \<Rightarrow> Inl SyntaxError
                  | col # r1 \<Rightarrow>
                      if col \<noteq> CHR '':'' then Inl SyntaxError
                      else
                        (case parse_value n r1 of
                           Inl e \<Rightarrow> Inl e
                         | Inr (v, r2) \<Rightarrow>
                             (case skip_ws r2 of
                                [] \<Rightarrow> Inl SyntaxError
                              | d # r3 \<Rightarrow>
                                  if d = CHR '','' then parse_members n (AList.update k v acc) r3
                                  else if d = CHR ''}'' then Inr (JObj (AList.update k v acc), r3)
                                  else Inl SyntaxError)))))"

definition JSON_parse :: "string \<Rightarrow> error + json" where
  "JSON_parse text =
     (case parse_value (2 * length text + 2) text of
        Inl e \<Rightarrow> Inl e
      | Inr (v, r) \<Rightarrow> if skip_ws r = [] then Inr v else Inl SyntaxError)"

subsection \<open>Reading the parsed value\<close>

text \<open>
  The values of the objects \<open>saveData\<close> serialises: a habit, and
  \<^verbatim>\<open>{ lastVisitDate: ..., habits: habits }\<close>.
\<close>

definition habit_json :: "habit \<Rightarrow> json" where
  "habit_json h =
     JObj [(''id'', JNum (of_int (habit_id h))), (''name'', JStr (name h)),
           (''time'', JStr (time h)), (''completed'', JBool (completed h))]"

definition data_json :: "string \<Rightarrow> habit list \<Rightarrow> json" where
  "data_json lastVisitDate hs =
     JObj [(''lastVisitDate'', JStr lastVisitDate), (''habits'', JArr (map habit_json hs))]"

text \<open>
  \<^verbatim>\<open>parsedData.habits\<close> and \<^verbatim>\<open>parsedData.lastVisitDate\<close>: reading a property of
  \<^verbatim>\<open>null\<close> throws a TypeError; an object yields its own property or \<^verbatim>\<open>undefined\<close>
  (\<open>None\<close>); a boolean, number, string or array has no property of either name.
\<close>

definition get_property :: "json \<Rightarrow> string \<Rightarrow> error + json option" where
  "get_property v k =
     (case v of
        JNull \<Rightarrow> Inl TypeError
      | JObj kvs \<Rightarrow> Inr (map_of kvs k)
      | _ \<Rightarrow> Inr None)"

text \<open>
  ToBoolean of a parsed value. A number literal denotes the double nearest to it, which is
  zero when the magnitude of the literal is at most \<open>2^-1075\<close>, half the least positive
  double.
\<close>

definition truthy :: "json \<Rightarrow> bool" where
  "truthy v =
     (case v of
        JNull \<Rightarrow> False
      | JBool b \<Rightarrow> b
      | JNum q \<Rightarrow> 1 / 2 ^ 1075 < \<bar>q\<bar>
      | JStr s \<Rightarrow> s \<noteq> []
      | _ \<Rightarrow> True)"

definition integer_of :: "rat \<Rightarrow> int option" where
  "integer_of q = (case quotient_of q of (p, d) \<Rightarrow> if d = 1 then Some p else None)"

text \<open>
  The typed store holds habit records only: an array element is read as a habit when it
  is an object with exactly the properties \<open>saveData\<close> writes, in that order.
\<close>

definition decode_habit :: "json \<Rightarrow> habit option" where
  "decode_habit v =
     (case v of
        JObj [(k1, JNum q), (k2, JStr nm), (k3, JStr tm), (k4, JBool c)] \<Rightarrow>
          if k1 = ''id'' \<and> k2 = ''name'' \<and> k3 = ''time'' \<and> k4 = ''completed'' then
            (case integer_of q of
               Some i \<Rightarrow> Some \<lparr>habit_id = i, name = nm, time = tm, completed = c\<rparr>
             | None \<Rightarrow> None)
          else None
      | _ \<Rightarrow> None)"

section \<open>Double-precision arithmetic\<close>

text \<open>
  \<^verbatim>\<open>completedCount / habits.length\<close> and the product with 100 are IEEE 754 double
  operations: the exact result rounded to 53 significant bits, ties to the even
  significand. \<open>binade x\<close> is the exponent \<open>e\<close> with \<open>2^e \<le> x < 2^(e+1)\<close>. Overflow and
  subnormal numbers are not modelled; the quotients of two array lengths and their
  products with 100 are far from both.
\<close>

definition round_even :: "rat \<Rightarrow> int" where
  "round_even x =
     (let f = \<lfloor>x\<rfloor>; d = x - of_int f
      in if d < 1 / 2 then f else if 1 / 2 < d then f + 1 else if even f then f else f + 1)"

definition binade :: "rat \<Rightarrow> int" where
  "binade x =
     (case quotient_of x of
        (p, q) \<Rightarrow> (let d = bitlen p - bitlen q in if 2 powi d \<le> x then d else d - 1))"

definition fl :: "rat \<Rightarrow> rat" where
  "fl x =
     (if x = 0 then 0
      else if x < 0 then - (of_int (round_even (- x * 2 powi (52 - binade (- x)))) * 2 powi (binade (- x) - 52))
      else of_int (round_even (x * 2 powi (52 - binade x))) * 2 powi (binade x - 52))"

text \<open>\<^verbatim>\<open>Math.round\<close>: the nearest integer, a tie going to the larger one.\<close>

definition Math_round :: "rat \<Rightarrow> int" where
  "Math_round x = \<lfloor>x + 1 / 2\<rfloor>"

section \<open>The operations of script.js\<close>

text \<open>
  Every function takes the state and returns the new one. What the source reads from its
  environment is a parameter: \<open>now\<close> is \<^verbatim>\<open>Date.now()\<close>, \<open>today\<close> is
  \<^verbatim>\<open>new Date().toDateString()\<close>, \<open>nameInput\<close> and \<open>timeInput\<close> are the values of the two
  input elements, \<open>confirmed\<close> is the answer to \<^verbatim>\<open>confirm(...)\<close>, and \<open>localeCompare\<close> is
  the host's \<^verbatim>\<open>String.prototype.localeCompare\<close>. Writes to the document are left out.
\<close>

definition calculatePoints :: "state \<Rightarrow> state" where
  "calculatePoints s =
     (let completedCount = length (filter completed (habits s))
      in s\<lparr>totalPoints := int completedCount * POINTS_PER_HABIT\<rparr>)"

text \<open>
  \<open>updateProgress\<close> returns the number it writes, followed by a percent sign, to the
  progress bar and the progress text.
\<close>

definition updateProgress :: "state \<Rightarrow> int" where
  "updateProgress s =
     (if length (habits s) = 0 then 0
      else
        (let completedCount = length (filter completed (habits s))
         in Math_round (fl (fl (of_nat completedCount / of_nat (length (habits s))) * 100))))"

definition saveData :: "string \<Rightarrow> state \<Rightarrow> state" where
  "saveData today s =
     calculatePoints (s\<lparr>storage := Some (JSON_stringify today (habits s))\<rparr>)"

text \<open>
  \<open>loadData\<close>: \<^verbatim>\<open>habits = parsedData.habits || []\<close>, then \<open>calculatePoints\<close>, whose
  \<^verbatim>\<open>habits.filter\<close> throws a TypeError when \<open>habits\<close> is not an array.
\<close>

definition loadData :: "state \<Rightarrow> error + state" where
  "loadData s =
     (case storage s of
        None \<Rightarrow> Inr s
      | Some storedData \<Rightarrow>
          if storedData = [] then Inr s
          else
            (case JSON_parse storedData of
               Inl e \<Rightarrow> Inl e
             | Inr parsedData \<Rightarrow>
                 (case get_property parsedData ''habits'' of
                    Inl e \<Rightarrow> Inl e
                  | Inr p \<Rightarrow>
                      (case (case p of
                               None \<Rightarrow> JArr []
                             | Some v \<Rightarrow> if truthy v then v else JArr []) of
                         JArr xs \<Rightarrow>
                           (case those (map decode_habit xs) of
                              Some hs \<Rightarrow> Inr (calculatePoints (s\<lparr>habits := hs\<rparr>))
                            | None \<Rightarrow> Inl Unmodelled)
                       | _ \<Rightarrow> Inl TypeError))))"

text \<open>
  \<open>checkDailyReset\<close> returns, with the state, whether the reset branch ran (the branch
  that ends in the alert "It's a new day!").
\<close>

definition checkDailyReset :: "string \<Rightarrow> state \<Rightarrow> error + (bool \<times> state)" where
  "checkDailyReset today s =
     (case storage s of
        None \<Rightarrow> Inr (False, s)
      | Some storedData \<Rightarrow>
          if storedData = [] then Inr (False, s)
          else
            (case JSON_parse storedData of
               Inl e \<Rightarrow> Inl e
             | Inr parsedData \<Rightarrow>
                 (case get_property parsedData ''lastVisitDate'' of
                    Inl e \<Rightarrow> Inl e
                  | Inr lastDate \<Rightarrow>
                      if lastDate \<noteq> Some (JStr today) then
                        Inr (True,
                             saveData today
                               (s\<lparr>habits := map (\<lambda>habit. habit\<lparr>completed := False\<rparr>) (habits s)\<rparr>))
                      else Inr (False, s))))"

definition addHabit :: "string \<Rightarrow> string \<Rightarrow> int \<Rightarrow> string \<Rightarrow> state \<Rightarrow> error option \<times> state" where
  "addHabit nameInput timeInput now today s =
     (let nm = trim nameInput; tm = timeInput
      in if nm = [] then (Some ValidationError, s)
         else if list_ex (\<lambda>h. toLowerCase (name h) = toLowerCase nm) (habits s) then
           (Some DuplicateError, s)
         else
           (let newHabit =
                  \<lparr>habit_id = now, name = nm,
                   time = (if tm = [] then ''Anytime'' else tm), completed = False\<rparr>
            in (None, saveData today (s\<lparr>habits := habits s @ [newHabit]\<rparr>))))"

text \<open>
  \<^verbatim>\<open>habits.find(h => h.id === id)\<close> yields the first habit with the id, and the
  assignment flips the flag of that object in the array.
\<close>

fun toggle_first :: "int \<Rightarrow> habit list \<Rightarrow> habit list" where
  "toggle_first i [] = []"
| "toggle_first i (h # hs) =
     (if habit_id h = i then h\<lparr>completed := \<not> completed h\<rparr> # hs else h # toggle_first i hs)"

definition toggleHabit :: "int \<Rightarrow> string \<Rightarrow> state \<Rightarrow> state" where
  "toggleHabit i today s =
     (case find (\<lambda>h. habit_id h = i) (habits s) of
        None \<Rightarrow> s
      | Some habit \<Rightarrow> saveData today (s\<lparr>habits := toggle_first i (habits s)\<rparr>))"

definition deleteHabit :: "int \<Rightarrow> bool \<Rightarrow> string \<Rightarrow> state \<Rightarrow> state" where
  "deleteHabit i confirmed today s =
     (if confirmed then saveData today (s\<lparr>habits := filter (\<lambda>h. habit_id h \<noteq> i) (habits s)\<rparr>)
      else s)"





text \<open>The handler of \<^verbatim>\<open>DOMContentLoaded\<close>, up to the first rendering.\<close>

definition startup :: "string \<Rightarrow> state \<Rightarrow> error + state" where
  "startup today s =
     (case loadData s of
        Inl e \<Rightarrow> Inl e
      | Inr s1 \<Rightarrow>
          (case checkDailyReset today s1 of
             Inl e \<Rightarrow> Inl e
           | Inr (r, s2) \<Rightarrow> Inr s2))"

text \<open>
  The states the page can be in: it starts with no habits and whatever the slot holds,
  and every handler that returns leaves a state.
\<close>

inductive reachable :: "state \<Rightarrow> bool" where
  start: "reachable \<lparr>habits = [], totalPoints = 0, storage = slot\<rparr>"
| load: "reachable s \<Longrightarrow> loadData s = Inr s' \<Longrightarrow> reachable s'"
| reset: "reachable s \<Longrightarrow> checkDailyReset today s = Inr (r, s') \<Longrightarrow> reachable s'"
| save: "reachable s \<Longrightarrow> reachable (saveData today s)"
| add: "reachable s \<Longrightarrow> reachable (snd (addHabit nameInput timeInput now today s))"
| toggle: "reachable s \<Longrightarrow> reachable (toggleHabit i today s)"
| delete: "reachable s \<Longrightarrow> reachable (deleteHabit i confirmed today s)"

section \<open>Notions used in the statements\<close>

text \<open>The cached total agrees with the habits.\<close>

definition points_consistent :: "state \<Rightarrow> bool" where
  "points_consistent s = (totalPoints s = 10 * int (length (filter completed (habits s))))"







text \<open>
  A parse result that is not \<open>OutOfFuel\<close> and, when it is a value, leaves less text than
  it was given.
\<close>

definition consumes :: "error + ('a \<times> string) \<Rightarrow> string \<Rightarrow> bool" where
  "consumes res s = (case res of Inl e \<Rightarrow> e \<noteq> OutOfFuel | Inr (v, r) \<Rightarrow> length r < length s)"

subsection \<open>Example states\<close>

text \<open>
  A page with one habit, completed and saved on Sunday; three habits as the page of a
  Monday holds them; two habits added with the times \<^verbatim>\<open>B\<close> and \<^verbatim>\<open>a\<close>; and forty habits of
  which the first 23 are completed.
\<close>

definition example_habit :: habit where
  "example_habit =
     \<lparr>habit_id = 1793516400000, name = ''Meditate'', time = ''07:00'', completed = True\<rparr>"

definition example_state :: state where
  "example_state =
     \<lparr>habits = [example_habit], totalPoints = 10,
      storage = Some (JSON_stringify ''Sun Nov 01 2026'' [example_habit])\<rparr>"

definition example_list :: "habit list" where
  "example_list =
     [\<lparr>habit_id = 1793602800000, name = ''Read'', time = ''07:00'', completed = True\<rparr>,
      \<lparr>habit_id = 1793602860000, name = ''Exercise'', time = ''Anytime'', completed = False\<rparr>,
      \<lparr>habit_id = 1793602920000, name = ''Walk'', time = ''06:30'', completed = False\<rparr>]"

definition example_three :: state where
  "example_three =
     \<lparr>habits = example_list, totalPoints = 10,
      storage = Some (JSON_stringify ''Mon Nov 02 2026'' example_list)\<rparr>"


definition example_entry :: "bool \<Rightarrow> nat \<Rightarrow> habit" where
  "example_entry done k =
     \<lparr>habit_id = 1793602800000 + int k, name = replicate k (CHR ''a''), time = ''Anytime'',
      completed = done\<rparr>"

definition example_forty :: state where
  "example_forty =
     saveData ''Mon Nov 02 2026''
       \<lparr>habits = map (example_entry True) [1..<24] @ map (example_entry False) [24..<41],
        totalPoints = 0, storage = None\<rparr>"

section \<open>Basic facts about the store\<close>

lemma habits_calculatePoints [simp]: "habits (calculatePoints s) = habits s"
  by (simp add: calculatePoints_def)

lemma storage_calculatePoints [simp]: "storage (calculatePoints s) = storage s"
  by (simp add: calculatePoints_def)

lemma totalPoints_calculatePoints [simp]:
  "totalPoints (calculatePoints s) = 10 * int (length (filter completed (habits s)))"
  by (simp add: calculatePoints_def POINTS_PER_HABIT_def)

lemma habits_saveData [simp]: "habits (saveData today s) = habits s"
  by (simp add: saveData_def)

lemma storage_saveData [simp]:
  "storage (saveData today s) = Some (JSON_stringify today (habits s))"
  by (simp add: saveData_def)

lemma totalPoints_saveData [simp]:
  "totalPoints (saveData today s) = 10 * int (length (filter completed (habits s)))"
  by (simp add: saveData_def)

lemma list_ex_set: "list_ex P xs = (\<exists>x\<in>set xs. P x)"
  by (simp add: list_ex_iff)

lemma trim_ex1: "trim ''  Run '' = ''Run''"
  by (simp add: trim_def is_space_def)

lemma trim_ex2: "trim '' meditate'' = ''meditate''"
  by (simp add: trim_def is_space_def)

lemma trim_ex3: "trim [CHR 0x20, CHR 0x09] = []"
  by (simp add: trim_def is_space_def)

lemma lower_ex1: "toLowerCase ''Meditate'' = ''meditate''"
  by (simp add: toLowerCase_def is_upper_def)

lemma lower_ex2: "toLowerCase ''meditate'' = ''meditate''"
  by (simp add: toLowerCase_def is_upper_def)

lemma lower_ex3: "toLowerCase ''Run'' = ''run''"
  by (simp add: toLowerCase_def is_upper_def)

section \<open>The stored text\<close>

subsection \<open>String and number literals\<close>

lemma hex_val_digit_char: "k < 16 \<Longrightarrow> hex_val (digit_char k) = Some k"
proof -
  assume "k < 16"
  then have "k \<in> {0, 1, 2, 3, 4, 5, 6, 7, 8, 9, 10, 11, 12, 13, 14, 15}"
    by simp arith
  then show ?thesis
    by (auto simp add: hex_val_def digit_char_def is_digit_def)
qed

lemma parse_chars_escape:
  "parse_chars (json_escape c @ rest) = cons_char c (parse_chars rest)"
proof -
  consider "c = CHR 0x08" | "c = CHR 0x09" | "c = CHR 0x0A" | "c = CHR 0x0C" | "c = CHR 0x0D"
    | "c = CHR 0x22" | "c = CHR 0x5C"
    | "c \<notin> {CHR 0x08, CHR 0x09, CHR 0x0A, CHR 0x0C, CHR 0x0D, CHR 0x22, CHR 0x5C}"
      "(of_char c :: nat) < 0x20"
    | "c \<notin> {CHR 0x08, CHR 0x09, CHR 0x0A, CHR 0x0C, CHR 0x0D, CHR 0x22, CHR 0x5C}"
      "\<not> (of_char c :: nat) < 0x20"
    by blast
  then show ?thesis
  proof cases
    case 8
    have d: "(of_char c :: nat) div 16 < 16" "(of_char c :: nat) mod 16 < 16"
      using 8(2) by auto
    have z: "hex_val (CHR ''0'') = Some 0"
      by (simp add: hex_val_def is_digit_def)
    show ?thesis
      using 8 by (simp add: json_escape_def hex_val_digit_char [OF d(1)]
          hex_val_digit_char [OF d(2)] z)
  next
    case 9
    then show ?thesis by (simp add: json_escape_def)
  qed (simp_all add: json_escape_def unescape_def)
qed

lemma parse_chars_quote:
  "parse_chars (concat (map json_escape s) @ CHR 0x22 # r) = Inr (s, r)"
  by (induction s) (simp_all add: parse_chars_escape cons_char_def)

lemma digit_char_digit: "k < 10 \<Longrightarrow> is_digit (digit_char k) \<and> digit_val (digit_char k) = k"
proof -
  assume "k < 10"
  then have "k \<in> {0, 1, 2, 3, 4, 5, 6, 7, 8, 9}"
    by simp arith
  then show ?thesis
    by (auto simp add: digit_char_def is_digit_def digit_val_def)
qed

lemma digit_char_zero: "k < 10 \<Longrightarrow> digit_char k = CHR ''0'' \<Longrightarrow> k = 0"
proof -
  assume "k < 10"
  then have "k \<in> {0, 1, 2, 3, 4, 5, 6, 7, 8, 9}"
    by simp arith
  then show "digit_char k = CHR ''0'' \<Longrightarrow> k = 0"
    by (auto simp add: digit_char_def)
qed

lemma dec_digits_nonempty: "dec_digits n \<noteq> []"
  by (subst dec_digits.simps) simp

lemma dec_digits_all_digits: "\<forall>c\<in>set (dec_digits n). is_digit c"
proof (induction n rule: dec_digits.induct)
  case (1 n)
  show ?case
  proof (cases "n < 10")
    case True
    then show ?thesis
      by (subst dec_digits.simps) (simp add: digit_char_digit)
  next
    case False
    then show ?thesis
      using "1.IH" by (subst dec_digits.simps) (simp add: digit_char_digit)
  qed
qed

lemma digits_val_snoc: "digits_val (xs @ [c]) = 10 * digits_val xs + digit_val c"
  by (simp add: digits_val_def)

lemma digits_val_dec_digits: "digits_val (dec_digits n) = n"
proof (induction n rule: dec_digits.induct)
  case (1 n)
  show ?case
  proof (cases "n < 10")
    case True
    then show ?thesis
      by (subst dec_digits.simps) (simp add: digits_val_def digit_char_digit)
  next
    case False
    then show ?thesis
      using "1.IH" by (subst dec_digits.simps) (simp add: digits_val_snoc digit_char_digit)
  qed
qed

lemma dec_digits_leading: "hd (dec_digits n) = CHR ''0'' \<Longrightarrow> dec_digits n = ''0''"
proof (induction n rule: dec_digits.induct)
  case (1 n)
  show ?case
  proof (cases "n < 10")
    case True
    with "1.prems" have "n = 0"
      by (subst (asm) dec_digits.simps) (simp add: digit_char_zero)
    then show ?thesis
      by (subst dec_digits.simps) (simp add: digit_char_def)
  next
    case False
    then have "hd (dec_digits (n div 10)) = CHR ''0''"
      using "1.prems" dec_digits_nonempty [of "n div 10"]
      by (subst (asm) dec_digits.simps) simp
    from "1.IH" [OF False this] have z: "dec_digits (n div 10) = ''0''" .
    have "n div 10 = digits_val (dec_digits (n div 10))"
      by (simp add: digits_val_dec_digits)
    also have "\<dots> = digits_val ''0''"
      by (simp only: z)
    also have "\<dots> = 0"
      by (simp add: digits_val_def digit_val_def)
    finally have "n div 10 = 0" .
    with False show ?thesis by simp
  qed
qed

lemma takeWhile_digits:
  "\<forall>c\<in>set ds. is_digit c \<Longrightarrow> \<not> is_digit t \<Longrightarrow> takeWhile is_digit (ds @ t # r) = ds"
  by (induction ds) auto

lemma dropWhile_digits:
  "\<forall>c\<in>set ds. is_digit c \<Longrightarrow> \<not> is_digit t \<Longrightarrow> dropWhile is_digit (ds @ t # r) = t # r"
  by (induction ds) auto

lemma parse_number_digits:
  assumes "ds \<noteq> []" "\<forall>c\<in>set ds. is_digit c" "hd ds = CHR ''0'' \<longrightarrow> tl ds = []"
    and "\<not> is_digit t" "t \<noteq> CHR ''.''" "t \<noteq> CHR ''e''" "t \<noteq> CHR ''E''"
  shows "parse_number (ds @ t # r) = Inr (of_nat (digits_val ds), t # r)"
proof -
  obtain d ds' where c: "ds = d # ds'"
    using assms(1) by (cases ds) auto
  have d: "is_digit d" and ds': "\<forall>c\<in>set ds'. is_digit c"
    using assms(2) c by simp_all
  have nm: "d \<noteq> CHR ''-''"
    using d by (auto simp add: is_digit_def)
  have lead: "d = CHR ''0'' \<longrightarrow> ds' = []"
    using assms(3) c by simp
  show ?thesis
    using nm lead d assms(5-7)
    by (simp add: c parse_number_def Let_def parse_frac_def parse_exp_def scale10_def
        takeWhile_digits [OF ds' assms(4)] dropWhile_digits [OF ds' assms(4)])
qed

lemma dec_digits_lead: "hd (dec_digits n) = CHR ''0'' \<longrightarrow> tl (dec_digits n) = []"
  using dec_digits_leading [of n] by auto

lemma is_digit_comma: "\<not> is_digit (CHR '','')"
  by (simp add: is_digit_def)

lemma parse_number_text:
  "parse_number (number_text i @ CHR '','' # r) = Inr (of_int i, CHR '','' # r)"
proof (cases "i < 0")
  case False
  then show ?thesis
    using parse_number_digits [OF dec_digits_nonempty dec_digits_all_digits dec_digits_lead
        is_digit_comma, of "nat i" r]
    by (simp add: number_text_def digits_val_dec_digits)
next
  case True
  have ds: "\<forall>c\<in>set (dec_digits (nat (- i))). is_digit c"
    by (rule dec_digits_all_digits)
  have v: "of_nat (nat (- i)) = (- of_int i :: rat)"
    using True by simp
  show ?thesis
    using True dec_digits_lead [of "nat (- i)"] dec_digits_nonempty [of "nat (- i)"]
    by (simp add: number_text_def parse_number_def Let_def parse_frac_def parse_exp_def scale10_def
        digits_val_dec_digits takeWhile_digits [OF ds is_digit_comma]
        dropWhile_digits [OF ds is_digit_comma] v)
qed

subsection \<open>The saved object reads back\<close>

lemmas parse_unfold = parse_value.simps(2) parse_elements.simps(2) parse_members.simps(2)

declare parse_value.simps(2) [simp del]
declare parse_elements.simps(2) [simp del]
declare parse_members.simps(2) [simp del]

lemma skip_ws_keep: "\<not> is_ws c \<Longrightarrow> skip_ws (c # s) = c # s"
  by (simp add: skip_ws_def)

lemma skip_ws_quote: "skip_ws (quote_text s @ r) = quote_text s @ r"
  by (simp add: quote_text_def skip_ws_def is_ws_def)

lemma value_string: "parse_value (Suc n) (quote_text s @ r) = Inr (JStr s, r)"
  by (simp add: parse_unfold quote_text_def skip_ws_def is_ws_def parse_chars_quote)

lemma number_text_head:
  "\<exists>c cs. number_text i = c # cs \<and> (c = CHR ''-'' \<or> is_digit c)"
proof (cases "i < 0")
  case True
  then show ?thesis by (simp add: number_text_def)
next
  case False
  obtain c cs where "dec_digits (nat i) = c # cs"
    using dec_digits_nonempty [of "nat i"] by (cases "dec_digits (nat i)") auto
  moreover from this have "is_digit c"
    using dec_digits_all_digits [of "nat i"] by simp
  ultimately show ?thesis using False by (simp add: number_text_def)
qed

lemma value_number:
  "parse_value (Suc n) (number_text i @ CHR '','' # r) = Inr (JNum (of_int i), CHR '','' # r)"
proof -
  obtain c cs where c: "number_text i = c # cs" "c = CHR ''-'' \<or> is_digit c"
    using number_text_head by blast
  then have nw: "\<not> is_ws c" "c \<noteq> CHR ''{''" "c \<noteq> CHR ''[''" "c \<noteq> CHR 0x22"
    by (auto simp add: is_ws_def is_digit_def)
  have "parse_number (c # cs @ CHR '','' # r) = Inr (of_int i, CHR '','' # r)"
    using parse_number_text [of i r] by (simp add: c)
  then show ?thesis
    using nw c(2) by (simp add: parse_unfold c(1) skip_ws_keep)
qed

lemma value_bool: "parse_value (Suc n) (bool_text b @ r) = Inr (JBool b, r)"
  by (simp add: parse_unfold bool_text_def skip_ws_def is_ws_def is_digit_def literal_def)

lemma parse_member:
  assumes "parse_value n (vt @ d # r) = Inr (v, d # r)" and "\<not> is_ws d"
  shows "parse_members (Suc n) acc (quote_text k @ CHR '':'' # vt @ d # r) =
           (if d = CHR '','' then parse_members n (AList.update k v acc) r
            else if d = CHR ''}'' then Inr (JObj (AList.update k v acc), r)
            else Inl SyntaxError)"
proof -
  have ws: "\<not> is_ws (CHR 0x22)" "\<not> is_ws (CHR '':'')"
    by (simp_all add: is_ws_def)
  show ?thesis
    using assms
    by (simp add: parse_unfold quote_text_def parse_chars_quote skip_ws_keep ws)
qed

lemma parse_element:
  assumes "parse_value n (et @ d # r) = Inr (v, d # r)" and "\<not> is_ws d"
  shows "parse_elements (Suc n) acc (et @ d # r) =
           (if d = CHR '','' then parse_elements n (acc @ [v]) r
            else if d = CHR '']'' then Inr (JArr (acc @ [v]), r)
            else Inl SyntaxError)"
  using assms by (simp add: parse_unfold skip_ws_keep)

lemma not_ws_delims:
  "\<not> is_ws (CHR '','')" "\<not> is_ws (CHR ''}'')" "\<not> is_ws (CHR '']'')" "\<not> is_ws (CHR ''{'')"
  by (simp_all add: is_ws_def)

lemma habit_text_unfold:
  "habit_text h @ r =
     CHR ''{'' # quote_text ''id'' @ CHR '':'' # number_text (habit_id h) @
     CHR '','' # quote_text ''name'' @ CHR '':'' # quote_text (name h) @
     CHR '','' # quote_text ''time'' @ CHR '':'' # quote_text (time h) @
     CHR '','' # quote_text ''completed'' @ CHR '':'' # bool_text (completed h) @ CHR ''}'' # r"
  by (simp add: habit_text_def)

lemma value_habit_fuel:
  "parse_value (Suc (Suc (Suc (Suc (Suc (Suc n)))))) (habit_text h @ r) = Inr (habit_json h, r)"
proof -
  let ?t4 = "quote_text ''completed'' @ CHR '':'' # bool_text (completed h) @ CHR ''}'' # r"
  let ?t3 = "quote_text ''time'' @ CHR '':'' # quote_text (time h) @ CHR '','' # ?t4"
  let ?t2 = "quote_text ''name'' @ CHR '':'' # quote_text (name h) @ CHR '','' # ?t3"
  let ?t1 = "quote_text ''id'' @ CHR '':'' # number_text (habit_id h) @ CHR '','' # ?t2"
  have m4: "parse_members (Suc (Suc n)) acc ?t4
              = Inr (JObj (AList.update ''completed'' (JBool (completed h)) acc), r)" for acc
    by (simp add: parse_member [OF value_bool not_ws_delims(2)])
  have m3: "parse_members (Suc (Suc (Suc n))) acc ?t3
              = parse_members (Suc (Suc n)) (AList.update ''time'' (JStr (time h)) acc) ?t4" for acc
    by (simp add: parse_member [OF value_string not_ws_delims(1)])
  have m2: "parse_members (Suc (Suc (Suc (Suc n)))) acc ?t2
              = parse_members (Suc (Suc (Suc n))) (AList.update ''name'' (JStr (name h)) acc) ?t3" for acc
    by (simp add: parse_member [OF value_string not_ws_delims(1)])
  have m1: "parse_members (Suc (Suc (Suc (Suc (Suc n))))) acc ?t1
              = parse_members (Suc (Suc (Suc (Suc n))))
                  (AList.update ''id'' (JNum (of_int (habit_id h))) acc) ?t2" for acc
    by (simp add: parse_member [OF value_number not_ws_delims(1)])
  have "parse_members (Suc (Suc (Suc (Suc (Suc n))))) [] ?t1 = Inr (habit_json h, r)"
    by (simp only: m1 m2 m3 m4) (simp add: habit_json_def)
  moreover have "skip_ws ?t1 = ?t1"
    by (rule skip_ws_quote)
  moreover obtain q where "?t1 = CHR 0x22 # q"
    by (simp add: quote_text_def)
  ultimately show ?thesis
    unfolding habit_text_unfold
    by (simp add: parse_unfold skip_ws_keep not_ws_delims)
qed

lemma value_habit:
  assumes "6 \<le> m"
  shows "parse_value m (habit_text h @ r) = Inr (habit_json h, r)"
proof -
  obtain n where "m = 6 + n"
    using assms le_Suc_ex by blast
  then have "m = Suc (Suc (Suc (Suc (Suc (Suc n)))))"
    by simp
  then show ?thesis by (simp only: value_habit_fuel)
qed

lemma habit_text_head: "\<exists>q. habit_text h @ r = CHR ''{'' # q"
  by (simp add: habit_text_def)

lemma join_comma_head:
  "hs \<noteq> [] \<Longrightarrow> \<exists>q. join_comma (map habit_text hs) @ r = CHR ''{'' # q"
proof (cases hs)
  case Nil
  then show "hs \<noteq> [] \<Longrightarrow> ?thesis" by simp
next
  case (Cons h t)
  then show ?thesis
    using habit_text_head by (cases t) (auto simp add: habit_text_def)
qed

lemma elements_habits:
  "hs \<noteq> [] \<Longrightarrow> length hs + 6 \<le> m \<Longrightarrow>
     parse_elements m acc (join_comma (map habit_text hs) @ CHR '']'' # r)
       = Inr (JArr (acc @ map habit_json hs), r)"
proof (induction hs arbitrary: m acc)
  case Nil
  then show ?case by simp
next
  case (Cons h t)
  from Cons.prems(2) obtain n where m: "m = Suc n" and n: "length t + 6 \<le> n"
    by (cases m) auto
  then have n6: "6 \<le> n" by simp
  show ?case
  proof (cases t)
    case Nil
    have "parse_elements (Suc n) acc (habit_text h @ CHR '']'' # r)
            = Inr (JArr (acc @ [habit_json h]), r)"
      by (subst parse_element [OF value_habit [OF n6] not_ws_delims(3)]) simp
    then show ?thesis by (simp add: m Nil)
  next
    case (Cons h' t')
    let ?rest = "join_comma (map habit_text t) @ CHR '']'' # r"
    have "parse_elements (Suc n) acc (habit_text h @ CHR '','' # ?rest)
            = parse_elements n (acc @ [habit_json h]) ?rest"
      by (subst parse_element [OF value_habit [OF n6] not_ws_delims(1)]) simp
    also have "\<dots> = Inr (JArr ((acc @ [habit_json h]) @ map habit_json t), r)"
      using Cons n by (intro Cons.IH) simp_all
    finally show ?thesis by (simp add: m Cons)
  qed
qed

lemma value_array:
  assumes "length hs + 6 \<le> n"
  shows "parse_value (Suc n) (CHR ''['' # join_comma (map habit_text hs) @ CHR '']'' # r)
           = Inr (JArr (map habit_json hs), r)"
proof (cases "hs = []")
  case True
  then show ?thesis
    by (simp add: parse_unfold skip_ws_def is_ws_def)
next
  case False
  obtain q where q: "join_comma (map habit_text hs) @ CHR '']'' # r = CHR ''{'' # q"
    using join_comma_head [OF False] by blast
  have "parse_elements n [] (CHR ''{'' # q) = Inr (JArr (map habit_json hs), r)"
    using elements_habits [OF False assms, of "[]" r] by (simp add: q)
  then show ?thesis
    by (simp add: parse_unfold q skip_ws_def is_ws_def)
qed

lemma JSON_stringify_unfold:
  "JSON_stringify d hs @ r =
     CHR ''{'' # quote_text ''lastVisitDate'' @ CHR '':'' # quote_text d @
     CHR '','' # quote_text ''habits'' @ CHR '':'' #
     (CHR ''['' # join_comma (map habit_text hs) @ [CHR '']'']) @ CHR ''}'' # r"
  by (simp add: JSON_stringify_def)

lemma value_data:
  assumes "length hs + 6 \<le> n"
  shows "parse_value (Suc (Suc (Suc (Suc n)))) (JSON_stringify d hs @ r) = Inr (data_json d hs, r)"
proof -
  let ?arr = "CHR ''['' # join_comma (map habit_text hs) @ [CHR '']'']"
  let ?t2 = "quote_text ''habits'' @ CHR '':'' # ?arr @ CHR ''}'' # r"
  let ?t1 = "quote_text ''lastVisitDate'' @ CHR '':'' # quote_text d @ CHR '','' # ?t2"
  have arr: "parse_value (Suc n) (?arr @ CHR ''}'' # r)
               = Inr (JArr (map habit_json hs), CHR ''}'' # r)"
    using value_array [OF assms, of "CHR ''}'' # r"] by simp
  have m2: "parse_members (Suc (Suc n)) acc ?t2
              = Inr (JObj (AList.update ''habits'' (JArr (map habit_json hs)) acc), r)" for acc
    by (subst parse_member [OF arr not_ws_delims(2)]) simp
  have m1: "parse_members (Suc (Suc (Suc n))) acc ?t1
              = parse_members (Suc (Suc n)) (AList.update ''lastVisitDate'' (JStr d) acc) ?t2" for acc
    by (subst parse_member [OF value_string not_ws_delims(1)]) simp
  have "parse_members (Suc (Suc (Suc n))) [] ?t1 = Inr (data_json d hs, r)"
    by (simp only: m1 m2) (simp add: data_json_def)
  moreover have "skip_ws ?t1 = ?t1"
    by (rule skip_ws_quote)
  moreover obtain q where "?t1 = CHR 0x22 # q"
    by (simp add: quote_text_def)
  ultimately show ?thesis
    unfolding JSON_stringify_unfold
    by (simp add: parse_unfold skip_ws_keep not_ws_delims)
qed

lemma length_join_comma: "length hs \<le> length (join_comma (map habit_text hs))"
proof (induction hs rule: induct_list012)
  case 1
  show ?case by simp
next
  case (2 h)
  show ?case by (simp add: habit_text_def)
next
  case (3 h h' t)
  then show ?case by simp
qed

lemma length_JSON_stringify: "length hs + 4 \<le> length (JSON_stringify d hs)"
  using length_join_comma [of hs] by (simp add: JSON_stringify_def quote_text_def)

lemma JSON_roundtrip: "JSON_parse (JSON_stringify d hs) = Inr (data_json d hs)"
proof -
  obtain n where n: "2 * length (JSON_stringify d hs) + 2 = Suc (Suc (Suc (Suc n)))"
    and le: "length hs + 6 \<le> n"
  proof -
    have "length hs + 10 \<le> 2 * length (JSON_stringify d hs) + 2"
      using length_JSON_stringify [of hs d] by simp
    then obtain k where "2 * length (JSON_stringify d hs) + 2 = (length hs + 10) + k"
      using le_Suc_ex by blast
    then have "2 * length (JSON_stringify d hs) + 2 = Suc (Suc (Suc (Suc (length hs + 6 + k))))"
      by simp
    then show ?thesis using that [of "length hs + 6 + k"] by simp
  qed
  have "parse_value (2 * length (JSON_stringify d hs) + 2) (JSON_stringify d hs @ [])
          = Inr (data_json d hs, [])"
    unfolding n by (rule value_data [OF le])
  then show ?thesis
    by (simp add: JSON_parse_def skip_ws_def)
qed

lemma JSON_stringify_nonempty: "JSON_stringify d hs \<noteq> []"
  by (simp add: JSON_stringify_def)

lemma integer_of_int: "integer_of (of_int i) = Some i"
  by (simp add: integer_of_def)

lemma decode_habit_json: "decode_habit (habit_json h) = Some h"
  by (simp add: decode_habit_def habit_json_def integer_of_int)

lemma those_decode: "those (map (decode_habit \<circ> habit_json) hs) = Some hs"
  by (induction hs) (simp_all add: decode_habit_json)

lemma loadData_stored:
  "storage s = Some (JSON_stringify d hs) \<Longrightarrow>
     loadData s = Inr (calculatePoints (s\<lparr>habits := hs\<rparr>))"
  by (simp add: loadData_def JSON_stringify_nonempty JSON_roundtrip data_json_def
      get_property_def truthy_def those_decode)

subsection \<open>The recursion bound of the parser is never reached\<close>

declare parse_chars.simps(2) [simp del]

lemma consumes_Inl [simp]: "consumes (Inl e) s = (e \<noteq> OutOfFuel)"
  by (simp add: consumes_def)

lemma consumes_Inr [simp]: "consumes (Inr (v, r)) s = (length r < length s)"
  by (simp add: consumes_def)

lemma consumes_mono: "consumes res s' \<Longrightarrow> length s' \<le> length s \<Longrightarrow> consumes res s"
  by (auto simp add: consumes_def split: sum.splits)

lemma length_skip_ws: "length (skip_ws s) \<le> length s"
  by (simp add: skip_ws_def length_dropWhile_le)

lemma consumes_cons_char:
  "consumes p r \<Longrightarrow> length r \<le> length s \<Longrightarrow> consumes (cons_char c p) s"
  by (auto simp add: consumes_def cons_char_def split: sum.splits)

lemma cons_char_Inl [simp]: "cons_char c (Inl e) = Inl e"
  by (simp add: cons_char_def)

lemma consumes_parse_chars: "consumes (parse_chars s) s"
proof (induction s rule: length_induct)
  case (1 s)
  then have IH: "\<And>ys. length ys < length s \<Longrightarrow> consumes (parse_chars ys) ys"
    by blast
  show ?case
  proof (cases s)
    case Nil
    then show ?thesis by simp
  next
    case (Cons c cs)
    show ?thesis
      unfolding Cons
      apply (subst parse_chars.simps(2))
      apply (auto split: list.splits option.splits
          intro!: consumes_cons_char [OF IH] simp add: Cons)
      done
  qed
qed

lemma length_dropWhile_digits:
  "takeWhile is_digit s \<noteq> [] \<Longrightarrow> length (dropWhile is_digit s) < length s"
  by (cases s) (auto simp add: length_dropWhile_le less_Suc_eq_le split: if_splits)

lemma parse_frac_length:
  "parse_frac s = Inr (q, r) \<Longrightarrow> length r \<le> length s"
  by (auto simp add: parse_frac_def Let_def length_dropWhile_le le_SucI
      split: list.splits if_splits)

lemma parse_frac_fuel: "parse_frac s \<noteq> Inl OutOfFuel"
  by (auto simp add: parse_frac_def Let_def split: list.splits if_splits)

lemma parse_exp_length:
  "parse_exp s = Inr (q, r) \<Longrightarrow> length r \<le> length s"
  by (auto simp add: parse_exp_def Let_def length_dropWhile_le le_SucI
      split: list.splits if_splits prod.splits)

lemma parse_exp_fuel: "parse_exp s \<noteq> Inl OutOfFuel"
  by (auto simp add: parse_exp_def Let_def split: list.splits if_splits prod.splits)

lemma consumes_parse_number: "consumes (parse_number s) s"
proof -
  define s1 where "s1 = (case s of c # r \<Rightarrow> if c = CHR ''-'' then r else s | [] \<Rightarrow> s)"
  have s1: "length s1 \<le> length s"
    by (auto simp add: s1_def split: list.splits)
  have eq: "(case s of c # r \<Rightarrow> if c = CHR ''-'' then (True, r) else (False, s) | [] \<Rightarrow> (False, s))
              = (s \<noteq> [] \<and> hd s = CHR ''-'', s1)"
    by (auto simp add: s1_def split: list.splits)
  show ?thesis
  proof (cases "takeWhile is_digit s1 = [] \<or>
      (hd (takeWhile is_digit s1) = CHR ''0'' \<and> tl (takeWhile is_digit s1) \<noteq> [])")
    case True
    then show ?thesis
      by (simp add: parse_number_def eq Let_def)
  next
    case False
    then have d: "length (dropWhile is_digit s1) < length s1"
      by (simp add: length_dropWhile_digits)
    show ?thesis
    proof (cases "parse_frac (dropWhile is_digit s1)")
      case (Inl e)
      then show ?thesis
        using False parse_frac_fuel [of "dropWhile is_digit s1"]
        by (simp add: parse_number_def eq Let_def)
    next
      case (Inr p)
      obtain fr s2 where p: "p = (fr, s2)" by (cases p)
      have s2: "length s2 \<le> length (dropWhile is_digit s1)"
        using Inr p parse_frac_length by blast
      show ?thesis
      proof (cases "parse_exp s2")
        case (Inl e)
        then show ?thesis
          using False Inr p parse_exp_fuel [of s2]
          by (simp add: parse_number_def eq Let_def)
      next
        case ex: (Inr p')
        obtain e s3 where p': "p' = (e, s3)" by (cases p')
        have "length s3 \<le> length s2"
          using ex p' parse_exp_length by blast
        with s2 d s1 have "length s3 < length s" by simp
        then show ?thesis
          using False Inr p ex p'
          by (simp add: parse_number_def eq Let_def)
      qed
    qed
  qed
qed

lemma literal_length:
  "p \<noteq> [] \<Longrightarrow> literal p s = Some r \<Longrightarrow> length r < length s"
proof -
  assume p: "p \<noteq> []" and l: "literal p s = Some r"
  then have t: "take (length p) s = p" and r: "r = drop (length p) s"
    by (auto simp add: literal_def split: if_splits)
  from t have "length (take (length p) s) = length p"
    by simp
  then have "length p \<le> length s"
    by simp
  with p r show ?thesis by (cases p) auto
qed

lemma skip_ws_Cons_length: "skip_ws s = c # cs \<Longrightarrow> length cs < length s"
  using length_skip_ws [of s] by simp

lemma fuel_enough:
  "(\<forall>s. 2 * length s < n \<longrightarrow> consumes (parse_value n s) s) \<and>
   (\<forall>acc s. 2 * length s + 1 < n \<longrightarrow> consumes (parse_elements n acc s) s) \<and>
   (\<forall>acc s. 2 * length s + 1 < n \<longrightarrow> consumes (parse_members n acc s) s)"
proof (induction n)
  case 0
  show ?case by simp
next
  case (Suc n)
  then have IH1: "\<And>s. 2 * length s < n \<Longrightarrow> consumes (parse_value n s) s"
    and IH2: "\<And>acc s. 2 * length s + 1 < n \<Longrightarrow> consumes (parse_elements n acc s) s"
    and IH3: "\<And>acc s. 2 * length s + 1 < n \<Longrightarrow> consumes (parse_members n acc s) s"
    by blast+
  have vals: "consumes (parse_value (Suc n) s) s" if fuel: "2 * length s < Suc n" for s
  proof (cases "skip_ws s")
    case Nil
    then show ?thesis by (simp add: parse_unfold)
  next
    case (Cons c cs)
    have cs: "length cs < length s"
      using Cons by (rule skip_ws_Cons_length)
    have inner: "length r < length s \<and> 2 * length (d # r) + 1 < n" if "skip_ws cs = d # r" for d r
      using skip_ws_Cons_length [OF that] cs fuel by simp
    have members: "consumes (parse_members n [] (d # r)) s" if "skip_ws cs = d # r" for d r
      using IH3 [of "d # r" "[]"] inner [OF that] by (auto intro: consumes_mono)
    have elements: "consumes (parse_elements n [] (d # r)) s" if "skip_ws cs = d # r" for d r
      using IH2 [of "d # r" "[]"] inner [OF that] by (auto intro: consumes_mono)
    have chars: "consumes (parse_chars cs) s"
      using consumes_parse_chars [of cs] cs by (auto intro: consumes_mono)
    have number: "consumes (parse_number (c # cs)) s"
      using consumes_parse_number [of "c # cs"] cs by (auto intro: consumes_mono)
    have lit: "length r < length s" if "literal p (c # cs) = Some r" "p \<noteq> []" for p r
      using literal_length [OF that(2,1)] cs by simp
    show ?thesis
    proof (cases "c = CHR ''{''")
      case True
      then show ?thesis
        using members inner by (auto simp add: parse_unfold Cons split: list.splits)
    next
      case nb: False
      show ?thesis
      proof (cases "c = CHR ''[''")
        case True
        then show ?thesis
          using elements inner by (auto simp add: parse_unfold Cons split: list.splits)
      next
        case nk: False
        show ?thesis
        proof (cases "c = CHR 0x22")
          case True
          then show ?thesis
            using chars by (auto simp add: parse_unfold Cons consumes_def split: sum.splits)
        next
          case nq: False
          show ?thesis
          proof (cases "c = CHR ''-'' \<or> is_digit c")
            case True
            then show ?thesis
              using number nb nk nq
              by (auto simp add: parse_unfold Cons consumes_def split: sum.splits)
          next
            case False
            then show ?thesis
              using nb nk nq lit [of "''true''"] lit [of "''false''"] lit [of "''null''"]
              by (auto simp add: parse_unfold Cons split: option.splits)
          qed
        qed
      qed
    qed
  qed
  have elems: "consumes (parse_elements (Suc n) acc s) s" if fuel: "2 * length s + 1 < Suc n" for acc s
  proof (cases "parse_value n s")
    case (Inl e)
    then show ?thesis
      using IH1 [of s] fuel by (simp add: parse_unfold)
  next
    case (Inr p)
    obtain v r where p: "p = (v, r)" by (cases p)
    have r: "length r < length s"
      using IH1 [of s] fuel Inr p by simp
    show ?thesis
    proof (cases "skip_ws r")
      case Nil
      then show ?thesis by (simp add: parse_unfold Inr p)
    next
      case (Cons d r')
      have r': "length r' < length r"
        using Cons by (rule skip_ws_Cons_length)
      have "consumes (parse_elements n (acc @ [v]) r') s"
        using IH2 [of r' "acc @ [v]"] r r' fuel by (auto intro: consumes_mono)
      then show ?thesis
        using r r' by (simp add: parse_unfold Inr p Cons)
    qed
  qed
  have membs: "consumes (parse_members (Suc n) acc s) s" if fuel: "2 * length s + 1 < Suc n" for acc s
  proof (cases "skip_ws s")
    case Nil
    then show ?thesis by (simp add: parse_unfold)
  next
    case (Cons q cs)
    have cs: "length cs < length s"
      using Cons by (rule skip_ws_Cons_length)
    show ?thesis
    proof (cases "parse_chars cs")
      case (Inl e)
      then show ?thesis
        using consumes_parse_chars [of cs] by (simp add: parse_unfold Cons)
    next
      case (Inr p)
      obtain k r where p: "p = (k, r)" by (cases p)
      have r: "length r < length cs"
        using consumes_parse_chars [of cs] Inr p by simp
      show ?thesis
      proof (cases "skip_ws r")
        case Nil
        then show ?thesis by (simp add: parse_unfold Cons Inr p)
      next
        case c1: (Cons col r1)
        have r1: "length r1 < length r"
          using c1 by (rule skip_ws_Cons_length)
        have f1: "2 * length r1 < n"
          using r1 r cs fuel by simp
        show ?thesis
        proof (cases "parse_value n r1")
          case (Inl e)
          then show ?thesis
            using IH1 [OF f1] by (simp add: parse_unfold Cons Inr p c1)
        next
          case v: (Inr p')
          obtain v r2 where p': "p' = (v, r2)" by (cases p')
          have r2: "length r2 < length r1"
            using IH1 [OF f1] v p' by simp
          show ?thesis
          proof (cases "skip_ws r2")
            case Nil
            then show ?thesis by (simp add: parse_unfold Cons Inr p c1 v p')
          next
            case c3: (Cons d r3)
            have r3: "length r3 < length r2"
              using c3 by (rule skip_ws_Cons_length)
            have "consumes (parse_members n (AList.update k v acc) r3) s"
              using IH3 [of r3 "AList.update k v acc"] r3 r2 r1 r cs fuel
              by (auto intro: consumes_mono)
            then show ?thesis
              using r3 r2 r1 r cs by (simp add: parse_unfold Cons Inr p c1 v p' c3)
          qed
        qed
      qed
    qed
  qed
  from vals elems membs show ?case by blast
qed

text \<open>
  \<open>JSON_parse\<close> gives its recursion twice the length of the text, and every call that
  recurses has consumed a character first.
\<close>

theorem JSON_parse_fuel: "JSON_parse text \<noteq> Inl OutOfFuel"
proof -
  have "consumes (parse_value (2 * length text + 2) text) text"
    using fuel_enough [of "2 * length text + 2"] by simp
  then show ?thesis
    by (auto simp add: JSON_parse_def consumes_def split: sum.splits)
qed

section \<open>Adding a habit\<close>

text \<open>
  C1, as amended. For every state, name, time, clock reading and date: \<open>addHabit\<close> trims
  the name; with an empty trimmed name it ends in \<open>ValidationError\<close> and with a trimmed
  name that equals an existing name after \<open>toLowerCase\<close> it ends in \<open>DuplicateError\<close>,
  the state unchanged in both cases; otherwise it appends exactly one habit at the end,
  with \<open>completed = False\<close>, the given time or \<open>Anytime\<close> for an empty one, and the clock
  reading \<open>now\<close> as its id, so that the count grows by one. The id differs from every
  existing id when every existing id is below the clock reading.
\<close>

theorem addHabit_outcomes:
  "(trim nameInput = [] \<longrightarrow>
      addHabit nameInput timeInput now today s = (Some ValidationError, s)) \<and>
   (trim nameInput \<noteq> [] \<and>
    (\<exists>h\<in>set (habits s). toLowerCase (name h) = toLowerCase (trim nameInput)) \<longrightarrow>
      addHabit nameInput timeInput now today s = (Some DuplicateError, s)) \<and>
   (trim nameInput \<noteq> [] \<and>
    \<not> (\<exists>h\<in>set (habits s). toLowerCase (name h) = toLowerCase (trim nameInput)) \<longrightarrow>
      fst (addHabit nameInput timeInput now today s) = None \<and>
      habits (snd (addHabit nameInput timeInput now today s)) =
        habits s @
        [\<lparr>habit_id = now, name = trim nameInput,
          time = (if timeInput = [] then ''Anytime'' else timeInput), completed = False\<rparr>] \<and>
      length (habits (snd (addHabit nameInput timeInput now today s))) = length (habits s) + 1 \<and>
      ((\<forall>h\<in>set (habits s). habit_id h < now) \<longrightarrow>
         (\<forall>h\<in>set (habits s).
            habit_id h \<noteq> habit_id (last (habits (snd (addHabit nameInput timeInput now today s)))))))"
  by (auto simp add: addHabit_def Let_def list_ex_set)

theorem addHabit_outcomes_witness:
  "addHabit [CHR 0x20, CHR 0x09] ''08:30'' 1793602800000 ''Mon Nov 02 2026'' example_state
     = (Some ValidationError, example_state) \<and>
   addHabit '' meditate'' ''08:30'' 1793602800000 ''Mon Nov 02 2026'' example_state
     = (Some DuplicateError, example_state) \<and>
   fst (addHabit ''  Run '' [] 1793602800000 ''Mon Nov 02 2026'' example_state) = None \<and>
   habits (snd (addHabit ''  Run '' [] 1793602800000 ''Mon Nov 02 2026'' example_state)) =
     [example_habit,
      \<lparr>habit_id = 1793602800000, name = ''Run'', time = ''Anytime'', completed = False\<rparr>] \<and>
   habit_id example_habit
     \<noteq> habit_id (last (habits (snd
          (addHabit ''  Run '' [] 1793602800000 ''Mon Nov 02 2026'' example_state))))"
  using
    addHabit_outcomes [of "[CHR 0x20, CHR 0x09]" "''08:30''" 1793602800000 "''Mon Nov 02 2026''"
      example_state]
    addHabit_outcomes [of "'' meditate''" "''08:30''" 1793602800000 "''Mon Nov 02 2026''"
      example_state]
    addHabit_outcomes [of "''  Run ''" "[]" 1793602800000 "''Mon Nov 02 2026''" example_state]
  by (simp add: trim_ex1 trim_ex2 trim_ex3 lower_ex1 lower_ex2 lower_ex3
      example_state_def example_habit_def)

text \<open>
  The id is the clock reading, whatever ids the list holds: added at the clock reading
  that is the id of the habit in the list, the new habit has that id as well.
\<close>

theorem addHabit_id_collision:
  "fst (addHabit ''Run'' [] 1793516400000 ''Sun Nov 01 2026'' example_state) = None \<and>
   map habit_id (habits (snd (addHabit ''Run'' [] 1793516400000 ''Sun Nov 01 2026'' example_state)))
     = [1793516400000, 1793516400000]"
  by (simp add: addHabit_def Let_def trim_def is_space_def toLowerCase_def is_upper_def
      example_state_def example_habit_def)

section \<open>Toggling and deleting\<close>

lemma toggle_first_twice: "toggle_first i (toggle_first i hs) = hs"
  by (induction hs) auto

lemma find_toggle_first:
  "find (\<lambda>h. habit_id h = i) (toggle_first i hs) =
     map_option (\<lambda>h. h\<lparr>completed := \<not> completed h\<rparr>) (find (\<lambda>h. habit_id h = i) hs)"
  by (induction hs) auto

lemma find_id_present:
  "i \<in> habit_id ` set hs \<Longrightarrow> \<exists>h. find (\<lambda>h. habit_id h = i) hs = Some h"
  by (induction hs) auto

lemma find_id_absent:
  "i \<notin> habit_id ` set hs \<Longrightarrow> find (\<lambda>h. habit_id h = i) hs = None"
  by (induction hs) auto

lemma example_id_present: "1793516400000 \<in> habit_id ` set (habits example_state)"
  by (simp add: example_state_def example_habit_def)

lemma example_id_absent: "1793602800000 \<notin> habit_id ` set (habits example_state)"
  by (simp add: example_state_def example_habit_def)

text \<open>
  C8. For every state and every id that some habit of the list has, toggling the id
  twice gives back the habit list as it was, so the habit's \<open>completed\<close> flag has its
  original value (the two calls may fall on different dates).
\<close>

theorem toggleHabit_twice:
  assumes "i \<in> habit_id ` set (habits s)"
  shows "habits (toggleHabit i today' (toggleHabit i today s)) = habits s"
proof -
  obtain h where h: "find (\<lambda>h. habit_id h = i) (habits s) = Some h"
    using find_id_present [OF assms] by blast
  then have 1: "habits (toggleHabit i today s) = toggle_first i (habits s)"
    by (simp add: toggleHabit_def)
  have "find (\<lambda>h. habit_id h = i) (habits (toggleHabit i today s))
          = Some (h\<lparr>completed := \<not> completed h\<rparr>)"
    by (simp add: 1 find_toggle_first h)
  then have "habits (toggleHabit i today' (toggleHabit i today s))
          = toggle_first i (habits (toggleHabit i today s))"
    by (simp add: toggleHabit_def)
  then show ?thesis
    by (simp add: 1 toggle_first_twice)
qed

theorem toggleHabit_twice_witness:
  "1793516400000 \<in> habit_id ` set (habits example_state) \<and>
   habits (toggleHabit 1793516400000 ''Tue Nov 03 2026''
             (toggleHabit 1793516400000 ''Mon Nov 02 2026'' example_state))
     = [example_habit]"
  using example_id_present
    toggleHabit_twice [OF example_id_present, of "''Tue Nov 03 2026''" "''Mon Nov 02 2026''"]
  by (simp add: example_state_def)

lemma filter_id_absent:
  "i \<notin> habit_id ` set hs \<Longrightarrow> filter (\<lambda>h. habit_id h \<noteq> i) hs = hs"
  by (induction hs) auto

text \<open>
  C9. For every state and every id that no habit of the list has: \<open>toggleHabit\<close> leaves
  the whole state as it was. \<open>deleteHabit\<close> leaves the habit list as it was; when the
  confirmation is declined it leaves the whole state as it was, and once confirmed it is
  a \<open>saveData\<close> of the unchanged list, which writes the text of the list, stamped with
  the current date, to the slot. So when the slot held the text of the list before,
  \<open>loadData\<close> reads the same habits from it before and after the call, and a state whose
  slot and total already are what its list determines for the same date is left exactly
  as it was.
\<close>

theorem unknown_id_noop:
  assumes "i \<notin> habit_id ` set (habits s)"
  shows "toggleHabit i today s = s \<and>
         habits (deleteHabit i confirmed today s) = habits s \<and>
         deleteHabit i False today s = s \<and>
         deleteHabit i True today s = saveData today s \<and>
         storage (deleteHabit i True today s) = Some (JSON_stringify today (habits s)) \<and>
         (storage s = Some (JSON_stringify d (habits s)) \<longrightarrow>
            (\<exists>s1 s2. loadData s = Inr s1 \<and> habits s1 = habits s \<and>
               loadData (deleteHabit i confirmed today s) = Inr s2 \<and> habits s2 = habits s)) \<and>
         (storage s = Some (JSON_stringify today (habits s)) \<and> points_consistent s \<longrightarrow>
            deleteHabit i confirmed today s = s)"
proof -
  have del: "deleteHabit i True today s = saveData today s"
    by (simp add: deleteHabit_def filter_id_absent [OF assms])
  have "toggleHabit i today s = s"
    by (simp add: toggleHabit_def find_id_absent [OF assms])
  moreover have "habits (deleteHabit i confirmed today s) = habits s"
    by (simp add: deleteHabit_def filter_id_absent [OF assms])
  moreover have "deleteHabit i False today s = s"
    by (simp add: deleteHabit_def)
  moreover have "storage (deleteHabit i True today s) = Some (JSON_stringify today (habits s))"
    by (simp add: del)
  moreover have "\<exists>s1 s2. loadData s = Inr s1 \<and> habits s1 = habits s \<and>
      loadData (deleteHabit i confirmed today s) = Inr s2 \<and> habits s2 = habits s"
    if stored: "storage s = Some (JSON_stringify d (habits s))"
  proof (cases confirmed)
    case True
    have "storage (deleteHabit i confirmed today s) = Some (JSON_stringify today (habits s))"
      using True by (simp add: del)
    from loadData_stored [OF stored] loadData_stored [OF this] show ?thesis
      by simp
  next
    case False
    then have "deleteHabit i confirmed today s = s"
      by (simp add: deleteHabit_def)
    with loadData_stored [OF stored] show ?thesis
      by simp
  qed
  moreover have "deleteHabit i confirmed today s = s"
    if "storage s = Some (JSON_stringify today (habits s))" and "points_consistent s"
    using that
    by (simp add: deleteHabit_def filter_id_absent [OF assms] saveData_def calculatePoints_def
        POINTS_PER_HABIT_def points_consistent_def)
  ultimately show ?thesis using del by blast
qed

lemma example_consistent: "points_consistent example_state"
  by (simp add: points_consistent_def example_state_def example_habit_def)

lemma example_stored:
  "storage example_state = Some (JSON_stringify ''Sun Nov 01 2026'' (habits example_state))"
  by (simp add: example_state_def)

theorem unknown_id_noop_witness:
  "1793602800000 \<notin> habit_id ` set (habits example_state) \<and>
   toggleHabit 1793602800000 ''Mon Nov 02 2026'' example_state = example_state \<and>
   habits (deleteHabit 1793602800000 True ''Mon Nov 02 2026'' example_state) = [example_habit] \<and>
   storage (deleteHabit 1793602800000 True ''Mon Nov 02 2026'' example_state)
     = Some (JSON_stringify ''Mon Nov 02 2026'' [example_habit]) \<and>
   (\<exists>s1 s2. loadData example_state = Inr s1 \<and> habits s1 = [example_habit] \<and>
      loadData (deleteHabit 1793602800000 True ''Mon Nov 02 2026'' example_state) = Inr s2 \<and>
      habits s2 = [example_habit]) \<and>
   deleteHabit 1793602800000 True ''Sun Nov 01 2026'' example_state = example_state"
proof -
  from unknown_id_noop [OF example_id_absent, of "''Mon Nov 02 2026''" True "''Sun Nov 01 2026''"]
    example_stored
  have "toggleHabit 1793602800000 ''Mon Nov 02 2026'' example_state = example_state"
    and "habits (deleteHabit 1793602800000 True ''Mon Nov 02 2026'' example_state)
           = habits example_state"
    and "storage (deleteHabit 1793602800000 True ''Mon Nov 02 2026'' example_state)
           = Some (JSON_stringify ''Mon Nov 02 2026'' (habits example_state))"
    and "\<exists>s1 s2. loadData example_state = Inr s1 \<and> habits s1 = habits example_state \<and>
           loadData (deleteHabit 1793602800000 True ''Mon Nov 02 2026'' example_state) = Inr s2 \<and>
           habits s2 = habits example_state"
    by blast+
  moreover from unknown_id_noop [OF example_id_absent, of "''Sun Nov 01 2026''" True]
    example_stored example_consistent
  have "deleteHabit 1793602800000 True ''Sun Nov 01 2026'' example_state = example_state"
    by blast
  moreover have "habits example_state = [example_habit]"
    by (simp add: example_state_def)
  ultimately show ?thesis
    using example_id_absent by simp
qed

lemma JSON_stringify_date: "JSON_stringify d hs = JSON_stringify d' hs' \<Longrightarrow> d = d'"
  using JSON_roundtrip [of d hs] JSON_roundtrip [of d' hs']
  by (simp add: data_json_def)

text \<open>
  A confirmed \<open>deleteHabit\<close> of an id that no habit has writes to the slot: the text saved
  on Sunday is replaced on Monday by the text of the same list with Monday's date, and a
  slot that was absent holds the text of the empty list afterwards.
\<close>

theorem deleteHabit_rewrites_slot:
  "1793602800000 \<notin> habit_id ` set (habits example_state) \<and>
   storage example_state = Some (JSON_stringify ''Sun Nov 01 2026'' [example_habit]) \<and>
   storage (deleteHabit 1793602800000 True ''Mon Nov 02 2026'' example_state)
     = Some (JSON_stringify ''Mon Nov 02 2026'' [example_habit]) \<and>
   storage (deleteHabit 1793602800000 True ''Mon Nov 02 2026'' example_state)
     \<noteq> storage example_state \<and>
   1793602800000 \<notin> habit_id ` set (habits init_state) \<and>
   storage init_state = None \<and>
   storage (deleteHabit 1793602800000 True ''Mon Nov 02 2026'' init_state)
     = Some (JSON_stringify ''Mon Nov 02 2026'' [])"
proof -
  have "JSON_stringify ''Mon Nov 02 2026'' [example_habit]
          \<noteq> JSON_stringify ''Sun Nov 01 2026'' [example_habit]"
    using JSON_stringify_date [of "''Mon Nov 02 2026''" "[example_habit]" "''Sun Nov 01 2026''"]
    by auto
  then show ?thesis
    using example_id_absent
    by (simp add: deleteHabit_def saveData_def example_state_def example_habit_def init_state_def)
qed

lemma find_Some_index:
  "find P xs = Some x \<Longrightarrow>
     \<exists>k<length xs. xs ! k = x \<and> P x \<and> (\<forall>j<k. \<not> P (xs ! j))"
proof (induction xs)
  case Nil
  then show ?case by simp
next
  case (Cons y ys)
  show ?case
  proof (cases "P y")
    case True
    with Cons.prems have "x = y" by simp
    with True show ?thesis by (intro exI [of _ 0]) simp
  next
    case False
    with Cons.prems have "find P ys = Some x" by simp
    from Cons.IH [OF this] obtain k where
      k: "k < length ys" "ys ! k = x" "P x" "\<forall>j<k. \<not> P (ys ! j)" by blast
    have "\<forall>j<Suc k. \<not> P ((y # ys) ! j)"
      using False k(4) by (auto simp: less_Suc_eq_0_disj)
    with k show ?thesis by (intro exI [of _ "Suc k"]) simp
  qed
qed

lemma toggle_first_update:
  "k < length hs \<Longrightarrow> habit_id (hs ! k) = i \<Longrightarrow> \<forall>j<k. habit_id (hs ! j) \<noteq> i \<Longrightarrow>
     toggle_first i hs = hs[k := (hs ! k)\<lparr>completed := \<not> completed (hs ! k)\<rparr>]"
proof (induction hs arbitrary: k)
  case Nil
  then show ?case by simp
next
  case (Cons h hs)
  show ?case
  proof (cases k)
    case 0
    with Cons.prems show ?thesis by simp
  next
    case (Suc k')
    from Cons.prems(3) Suc have "habit_id h \<noteq> i" by auto
    moreover have "toggle_first i hs = hs[k' := (hs ! k')\<lparr>completed := \<not> completed (hs ! k')\<rparr>]"
      using Cons.prems Suc by (intro Cons.IH) auto
    ultimately show ?thesis using Suc by simp
  qed
qed

text \<open>
  C10. For every state and every id that some habit of the list has, \<open>toggleHabit\<close>
  replaces the first habit with that id, at its position, by the same habit with the
  \<open>completed\<close> flag negated: the ids, names and times of the list, its length and its
  order are unchanged, and so is every habit at another position.
\<close>

theorem toggleHabit_frame:
  assumes "i \<in> habit_id ` set (habits s)"
  shows "\<exists>k<length (habits s).
           habit_id (habits s ! k) = i \<and>
           (\<forall>j<k. habit_id (habits s ! j) \<noteq> i) \<and>
           habits (toggleHabit i today s) =
             (habits s)[k := (habits s ! k)\<lparr>completed := \<not> completed (habits s ! k)\<rparr>] \<and>
           length (habits (toggleHabit i today s)) = length (habits s) \<and>
           map habit_id (habits (toggleHabit i today s)) = map habit_id (habits s) \<and>
           map name (habits (toggleHabit i today s)) = map name (habits s) \<and>
           map time (habits (toggleHabit i today s)) = map time (habits s) \<and>
           (\<forall>j<length (habits s). j \<noteq> k \<longrightarrow> habits (toggleHabit i today s) ! j = habits s ! j)"
proof -
  obtain h where h: "find (\<lambda>h. habit_id h = i) (habits s) = Some h"
    using find_id_present [OF assms] by blast
  from find_Some_index [OF h] obtain k where
    k: "k < length (habits s)" "habits s ! k = h" "habit_id h = i"
       "\<forall>j<k. habit_id (habits s ! j) \<noteq> i" by blast
  have t: "habits (toggleHabit i today s) =
             (habits s)[k := (habits s ! k)\<lparr>completed := \<not> completed (habits s ! k)\<rparr>]"
    using h k by (simp add: toggleHabit_def toggle_first_update)
  have "map habit_id ((habits s)[k := (habits s ! k)\<lparr>completed := \<not> completed (habits s ! k)\<rparr>])
          = map habit_id (habits s)"
       "map name ((habits s)[k := (habits s ! k)\<lparr>completed := \<not> completed (habits s ! k)\<rparr>])
          = map name (habits s)"
       "map time ((habits s)[k := (habits s ! k)\<lparr>completed := \<not> completed (habits s ! k)\<rparr>])
          = map time (habits s)"
    using k(1) by (simp_all add: map_update list_eq_iff_nth_eq nth_list_update)
  with t k show ?thesis
    by (intro exI [of _ k]) simp
qed

theorem toggleHabit_frame_witness:
  "1793516400000 \<in> habit_id ` set (habits example_state) \<and>
   habits (toggleHabit 1793516400000 ''Mon Nov 02 2026'' example_state)
     = [\<lparr>habit_id = 1793516400000, name = ''Meditate'', time = ''07:00'', completed = False\<rparr>]"
  using example_id_present toggleHabit_frame [OF example_id_present, of "''Mon Nov 02 2026''"]
  by (auto simp add: example_state_def example_habit_def)

section \<open>The cached total\<close>

lemma consistent_saveData: "points_consistent (saveData today s)"
  by (simp add: points_consistent_def)

lemma consistent_loadData:
  "points_consistent s \<Longrightarrow> loadData s = Inr s' \<Longrightarrow> points_consistent s'"
  by (auto simp add: loadData_def points_consistent_def
      split: option.splits if_splits sum.splits json.splits)

lemma consistent_checkDailyReset:
  "points_consistent s \<Longrightarrow> checkDailyReset today s = Inr (r, s') \<Longrightarrow> points_consistent s'"
  by (auto simp add: checkDailyReset_def points_consistent_def
      split: option.splits if_splits sum.splits)

lemma consistent_addHabit:
  "points_consistent s \<Longrightarrow> points_consistent (snd (addHabit nameInput timeInput now today s))"
  by (simp add: addHabit_def Let_def consistent_saveData)

lemma consistent_toggleHabit:
  "points_consistent s \<Longrightarrow> points_consistent (toggleHabit i today s)"
  by (simp add: toggleHabit_def consistent_saveData split: option.splits)

lemma consistent_deleteHabit:
  "points_consistent s \<Longrightarrow> points_consistent (deleteHabit i confirmed today s)"
  by (simp add: deleteHabit_def consistent_saveData)

text \<open>
  C3. In every state the page reaches from its start (no habits, total 0, any slot) by
  loading, the daily reset, saving, adding, toggling and deleting, \<open>totalPoints\<close> is 10
  times the number of habits whose \<open>completed\<close> flag is set.
\<close>

theorem totalPoints_invariant:
  "reachable s \<Longrightarrow> totalPoints s = 10 * int (length (filter completed (habits s)))"
proof -
  assume "reachable s"
  then have "points_consistent s"
  proof (induction rule: reachable.induct)
    case (start slot)
    show ?case by (simp add: points_consistent_def)
  next
    case (load s s')
    then show ?case by (blast intro: consistent_loadData)
  next
    case (reset s today r s')
    then show ?case by (blast intro: consistent_checkDailyReset)
  next
    case (save s today)
    show ?case by (rule consistent_saveData)
  next
    case (add s nameInput timeInput now today)
    then show ?case by (simp add: consistent_addHabit)
  next
    case (toggle s i today)
    then show ?case by (simp add: consistent_toggleHabit)
  next
    case (delete s i confirmed today)
    then show ?case by (simp add: consistent_deleteHabit)
  qed
  then show ?thesis by (simp add: points_consistent_def)
qed

lemma example_reachable:
  "reachable (toggleHabit 1793602800000 ''Mon Nov 02 2026''
     (snd (addHabit ''  Run '' [] 1793602800000 ''Mon Nov 02 2026''
        \<lparr>habits = [], totalPoints = 0, storage = None\<rparr>)))"
  by (intro reachable.toggle reachable.add reachable.start)

theorem totalPoints_invariant_witness:
  "reachable (toggleHabit 1793602800000 ''Mon Nov 02 2026''
     (snd (addHabit ''  Run '' [] 1793602800000 ''Mon Nov 02 2026''
        \<lparr>habits = [], totalPoints = 0, storage = None\<rparr>))) \<and>
   totalPoints (toggleHabit 1793602800000 ''Mon Nov 02 2026''
     (snd (addHabit ''  Run '' [] 1793602800000 ''Mon Nov 02 2026''
        \<lparr>habits = [], totalPoints = 0, storage = None\<rparr>))) = 10"
  using example_reachable totalPoints_invariant [OF example_reachable]
  by (simp add: toggleHabit_def addHabit_def Let_def trim_ex1)

section \<open>The display order\<close>


























section \<open>Persistence\<close>

lemma JSON_parse_brace: "JSON_parse ''{'' = Inl SyntaxError"
  by (simp add: JSON_parse_def parse_unfold skip_ws_def is_ws_def eval_nat_numeral)

lemma JSON_parse_null: "JSON_parse ''null'' = Inr JNull"
  by (simp add: JSON_parse_def parse_unfold skip_ws_def is_ws_def is_digit_def literal_def
      eval_nat_numeral)

text \<open>
  C2, as amended. For every state whose slot holds text that parses to an object with the
  string \<open>d\<close> as its \<open>lastVisitDate\<close>: \<open>checkDailyReset\<close> called with the date \<open>d\<close>
  changes nothing and reports no reset; called with another date it reports the reset,
  every habit has \<open>completed = False\<close>, the total is 0 and the slot holds the text of the
  reset habits with the new date, which parses to the object with that date as
  \<open>lastVisitDate\<close>. For every state whose slot is absent or holds the empty string,
  \<open>checkDailyReset\<close> changes nothing and reports no reset, whatever the date.
\<close>

theorem checkDailyReset_spec:
  "(storage s = None \<or> storage s = Some [] \<longrightarrow> checkDailyReset today s = Inr (False, s)) \<and>
   (storage s = Some stored \<and> stored \<noteq> [] \<and> JSON_parse stored = Inr v \<and>
    get_property v ''lastVisitDate'' = Inr (Some (JStr d)) \<longrightarrow>
      checkDailyReset d s = Inr (False, s) \<and>
      (today \<noteq> d \<longrightarrow>
         checkDailyReset today s =
           Inr (True,
                \<lparr>habits = map (\<lambda>h. h\<lparr>completed := False\<rparr>) (habits s),
                 totalPoints = 0,
                 storage = Some (JSON_stringify today
                                   (map (\<lambda>h. h\<lparr>completed := False\<rparr>) (habits s)))\<rparr>) \<and>
         (\<forall>h\<in>set (map (\<lambda>h. h\<lparr>completed := False\<rparr>) (habits s)). \<not> completed h) \<and>
         JSON_parse (JSON_stringify today (map (\<lambda>h. h\<lparr>completed := False\<rparr>) (habits s)))
           = Inr (data_json today (map (\<lambda>h. h\<lparr>completed := False\<rparr>) (habits s)))))"
proof -
  have "filter completed (map (\<lambda>h. h\<lparr>completed := False\<rparr>) (habits s)) = []"
    by (simp add: filter_empty_conv)
  then have "saveData today (s\<lparr>habits := map (\<lambda>h. h\<lparr>completed := False\<rparr>) (habits s)\<rparr>)
      = \<lparr>habits = map (\<lambda>h. h\<lparr>completed := False\<rparr>) (habits s), totalPoints = 0,
         storage = Some (JSON_stringify today (map (\<lambda>h. h\<lparr>completed := False\<rparr>) (habits s)))\<rparr>"
    by (simp add: saveData_def calculatePoints_def)
  then show ?thesis
    by (auto simp add: checkDailyReset_def JSON_roundtrip)
qed

lemma example_stored_text:
  "storage example_state = Some (JSON_stringify ''Sun Nov 01 2026'' [example_habit])"
  by (simp add: example_state_def)

lemma lastVisitDate_data_json:
  "get_property (data_json d hs) ''lastVisitDate'' = Inr (Some (JStr d))"
  by (simp add: get_property_def data_json_def)

theorem checkDailyReset_spec_witness:
  "checkDailyReset ''Mon Nov 02 2026'' init_state = Inr (False, init_state) \<and>
   checkDailyReset ''Sun Nov 01 2026'' example_state = Inr (False, example_state) \<and>
   checkDailyReset ''Mon Nov 02 2026'' example_state
     = Inr (True,
            \<lparr>habits = [\<lparr>habit_id = 1793516400000, name = ''Meditate'', time = ''07:00'',
                        completed = False\<rparr>],
             totalPoints = 0,
             storage = Some (JSON_stringify ''Mon Nov 02 2026''
                [\<lparr>habit_id = 1793516400000, name = ''Meditate'', time = ''07:00'',
                  completed = False\<rparr>])\<rparr>)"
  using checkDailyReset_spec [of init_state "''Mon Nov 02 2026''"]
    checkDailyReset_spec [of example_state "''Mon Nov 02 2026''"
      "JSON_stringify ''Sun Nov 01 2026'' [example_habit]"
      "data_json ''Sun Nov 01 2026'' [example_habit]" "''Sun Nov 01 2026''"]
    example_stored_text JSON_stringify_nonempty [of "''Sun Nov 01 2026''" "[example_habit]"]
    JSON_roundtrip [of "''Sun Nov 01 2026''" "[example_habit]"]
    lastVisitDate_data_json [of "''Sun Nov 01 2026''" "[example_habit]"]
  by (simp add: init_state_def example_state_def example_habit_def)

text \<open>
  On the first visit the slot is absent: whatever the date, \<open>checkDailyReset\<close> reports no
  reset and writes nothing to the slot.
\<close>

theorem checkDailyReset_first_visit:
  "checkDailyReset ''Mon Nov 02 2026'' \<lparr>habits = [], totalPoints = 0, storage = None\<rparr>
     = Inr (False, \<lparr>habits = [], totalPoints = 0, storage = None\<rparr>)"
  by (simp add: checkDailyReset_def)

text \<open>
  C4. For every habit list and date: \<open>saveData\<close> writes the text of
  \<^verbatim>\<open>{ lastVisitDate: today, habits }\<close> to the slot; \<^verbatim>\<open>JSON.parse\<close> of that text is the
  object with \<open>today\<close> as \<open>lastVisitDate\<close> and the same habits; and \<open>loadData\<close> on that slot,
  from any state of the page, ends with the same habit sequence: the same order and the
  same id, name, time and completed flag at every position.
\<close>

theorem save_load_roundtrip:
  "storage (saveData today s) = Some (JSON_stringify today (habits s)) \<and>
   JSON_parse (JSON_stringify today (habits s)) = Inr (data_json today (habits s)) \<and>
   get_property (data_json today (habits s)) ''lastVisitDate'' = Inr (Some (JStr today)) \<and>
   loadData (s0\<lparr>storage := storage (saveData today s)\<rparr>) =
     Inr \<lparr>habits = habits s,
          totalPoints = 10 * int (length (filter completed (habits s))),
          storage = Some (JSON_stringify today (habits s))\<rparr> \<and>
   loadData (saveData today s) = Inr (saveData today s)"
proof -
  have "loadData (s0\<lparr>storage := storage (saveData today s)\<rparr>) =
     Inr \<lparr>habits = habits s,
          totalPoints = 10 * int (length (filter completed (habits s))),
          storage = Some (JSON_stringify today (habits s))\<rparr>"
    by (subst loadData_stored [of _ today "habits s"])
       (simp_all add: calculatePoints_def POINTS_PER_HABIT_def)
  moreover have "loadData (saveData today s) = Inr (saveData today s)"
    by (subst loadData_stored [of _ today "habits s"])
       (simp_all add: saveData_def calculatePoints_def)
  ultimately show ?thesis
    by (simp add: JSON_roundtrip lastVisitDate_data_json)
qed

text \<open>
  C5, as amended. \<open>loadData\<close> leaves the state as it is when the slot is absent or holds
  the empty string, and it continues with an empty habit list when the slot text parses
  to a value without a \<open>habits\<close> property. When the slot holds other text that
  \<^verbatim>\<open>JSON.parse\<close> rejects, \<open>loadData\<close> ends in the uncaught SyntaxError, and so does the
  startup handler, before the reset check and the first rendering; when the text parses to
  \<^verbatim>\<open>null\<close> they end in a TypeError. There is no fall-back to an empty store.
\<close>

theorem loadData_unparseable:
  "(storage s = None \<or> storage s = Some [] \<longrightarrow> loadData s = Inr s) \<and>
   (storage s = Some stored \<and> stored \<noteq> [] \<and> JSON_parse stored = Inr v \<and>
    get_property v ''habits'' = Inr None \<longrightarrow>
      loadData s = Inr (s\<lparr>habits := [], totalPoints := 0\<rparr>)) \<and>
   (storage s = Some stored \<and> stored \<noteq> [] \<and> JSON_parse stored = Inl SyntaxError \<longrightarrow>
      loadData s = Inl SyntaxError \<and> startup today s = Inl SyntaxError) \<and>
   (storage s = Some stored \<and> stored \<noteq> [] \<and> JSON_parse stored = Inr JNull \<longrightarrow>
      loadData s = Inl TypeError \<and> startup today s = Inl TypeError)"
  by (auto simp add: loadData_def startup_def get_property_def calculatePoints_def)

lemma JSON_parse_seven: "JSON_parse ''7'' = Inr (JNum 7)"
  by (simp add: JSON_parse_def parse_unfold skip_ws_def is_ws_def is_digit_def parse_number_def
      parse_frac_def parse_exp_def scale10_def digits_val_def digit_val_def eval_nat_numeral)

theorem loadData_unparseable_witness:
  "loadData \<lparr>habits = [], totalPoints = 0, storage = None\<rparr>
     = Inr \<lparr>habits = [], totalPoints = 0, storage = None\<rparr> \<and>
   loadData \<lparr>habits = [], totalPoints = 0, storage = Some ''7''\<rparr>
     = Inr \<lparr>habits = [], totalPoints = 0, storage = Some ''7''\<rparr> \<and>
   loadData \<lparr>habits = [], totalPoints = 0, storage = Some ''{''\<rparr> = Inl SyntaxError \<and>
   startup ''Mon Nov 02 2026'' \<lparr>habits = [], totalPoints = 0, storage = Some ''{''\<rparr>
     = Inl SyntaxError \<and>
   loadData \<lparr>habits = [], totalPoints = 0, storage = Some ''null''\<rparr> = Inl TypeError"
  using loadData_unparseable [of "\<lparr>habits = [], totalPoints = 0, storage = None\<rparr>"]
    loadData_unparseable [of "\<lparr>habits = [], totalPoints = 0, storage = Some ''7''\<rparr>" "''7''"
      "JNum 7"]
    loadData_unparseable [of "\<lparr>habits = [], totalPoints = 0, storage = Some ''{''\<rparr>" "''{''"
      _ "''Mon Nov 02 2026''"]
    loadData_unparseable [of "\<lparr>habits = [], totalPoints = 0, storage = Some ''null''\<rparr>"
      "''null''" _ "''Mon Nov 02 2026''"]
  by (simp add: JSON_parse_brace JSON_parse_null JSON_parse_seven get_property_def)

text \<open>
  The slot text \<^verbatim>\<open>{\<close> makes \<open>loadData\<close> and the startup handler end in the SyntaxError;
  the slot text \<^verbatim>\<open>null\<close> parses, and reading \<^verbatim>\<open>parsedData.habits\<close> throws a TypeError.
\<close>

theorem loadData_crashes:
  "loadData \<lparr>habits = [], totalPoints = 0, storage = Some ''{''\<rparr> = Inl SyntaxError \<and>
   startup ''Mon Nov 02 2026'' \<lparr>habits = [], totalPoints = 0, storage = Some ''{''\<rparr>
     = Inl SyntaxError \<and>
   loadData \<lparr>habits = [], totalPoints = 0, storage = Some ''null''\<rparr> = Inl TypeError"
  by (simp add: loadData_def startup_def JSON_parse_brace JSON_parse_null get_property_def)

section \<open>The completion percentage\<close>

lemma pow2_pos [simp]: "0 < (2::rat) powi k"
  by (simp add: zero_less_power_int)

lemma bitlen_powi:
  assumes "0 < p"
  shows "2 powi (bitlen p - 1) \<le> (of_int p :: rat) \<and> (of_int p :: rat) < 2 powi bitlen p"
proof -
  have b: "1 \<le> bitlen p"
    using assms bitlen_eq_zero_iff [of p] bitlen_nonneg [of p] by linarith
  have "(2::int) ^ nat (bitlen p - 1) \<le> p" "p < 2 ^ nat (bitlen p)"
    using bitlen_bounds [OF assms] by auto
  then have "(of_int ((2::int) ^ nat (bitlen p - 1)) :: rat) \<le> of_int p"
    "(of_int p :: rat) < of_int (2 ^ nat (bitlen p))"
    by (simp_all only: of_int_le_iff of_int_less_iff)
  then show ?thesis
    using b by (simp add: power_int_def)
qed

lemma binade_bounds:
  assumes "0 < x"
  shows "2 powi binade x \<le> x \<and> x < 2 powi (binade x + 1)"
proof -
  obtain p q where pq: "quotient_of x = (p, q)"
    by (cases "quotient_of x")
  then have q: "0 < q" and x: "x = of_int p / of_int q"
    using quotient_of_denom_pos [OF pq] quotient_of_div [OF pq] by simp_all
  have p: "0 < p"
    using assms q x by (simp add: zero_less_divide_iff)
  define d where "d = bitlen p - bitlen q"
  have P: "2 powi (bitlen p - 1) \<le> (of_int p :: rat)" "(of_int p :: rat) < 2 powi bitlen p"
    using bitlen_powi [OF p] by simp_all
  have Q: "2 powi (bitlen q - 1) \<le> (of_int q :: rat)" "(of_int q :: rat) < 2 powi bitlen q"
    using bitlen_powi [OF q] by simp_all
  have Qpos: "0 < (of_int q :: rat)" using q by simp
  have Ppos: "0 < (of_int p :: rat)" using p by simp
  have up: "x < 2 powi (d + 1)"
  proof -
    have "x * 2 powi (bitlen q - 1) \<le> x * of_int q"
      using Q(1) assms by (simp add: mult_left_mono)
    also have "\<dots> = of_int p"
      using Qpos by (simp add: x)
    also have "\<dots> < 2 powi bitlen p" by (rule P(2))
    finally have "x < 2 powi bitlen p / 2 powi (bitlen q - 1)"
      by (simp add: pos_less_divide_eq)
    also have "\<dots> = 2 powi (bitlen p - (bitlen q - 1))"
      by (simp add: power_int_diff)
    finally show ?thesis by (simp add: d_def algebra_simps)
  qed
  have low: "2 powi (d - 1) \<le> x"
  proof -
    have "2 powi (bitlen p - 1) \<le> (of_int p :: rat)" by (rule P(1))
    also have "\<dots> = x * of_int q"
      using Qpos by (simp add: x)
    also have "\<dots> \<le> x * 2 powi bitlen q"
      using Q(2) assms by (simp add: mult_left_mono)
    finally have "2 powi (bitlen p - 1) / 2 powi bitlen q \<le> x"
      by (simp add: pos_divide_le_eq)
    moreover have "2 powi (bitlen p - 1) / 2 powi bitlen q = (2::rat) powi (bitlen p - 1 - bitlen q)"
      by (simp add: power_int_diff)
    ultimately show ?thesis by (simp add: d_def algebra_simps)
  qed
  have b: "binade x = (if 2 powi d \<le> x then d else d - 1)"
    by (simp add: binade_def pq d_def Let_def)
  show ?thesis
    using up low by (auto simp add: b)
qed

lemma round_even_le: "y \<le> of_int k \<Longrightarrow> round_even y \<le> k"
proof -
  assume y: "y \<le> of_int k"
  show ?thesis
  proof (cases "y = of_int k")
    case True
    then show ?thesis by (simp add: round_even_def Let_def)
  next
    case False
    with y have "y < of_int k" by simp
    then have "\<lfloor>y\<rfloor> < k" by (simp add: floor_less_iff)
    then show ?thesis by (auto simp add: round_even_def Let_def)
  qed
qed

lemma round_even_ge: "of_int k \<le> y \<Longrightarrow> k \<le> round_even y"
proof -
  assume "of_int k \<le> y"
  then have "k \<le> \<lfloor>y\<rfloor>" by (simp add: le_floor_iff)
  then show ?thesis by (auto simp add: round_even_def Let_def)
qed

lemma round_even_error: "\<bar>of_int (round_even y) - y\<bar> \<le> 1 / 2"
proof -
  define f where "f = \<lfloor>y\<rfloor>"
  define d where "d = y - of_int f"
  have d: "0 \<le> d" "d < 1"
    unfolding d_def f_def by linarith+
  have y: "y = of_int f + d"
    by (simp add: d_def)
  have "round_even y = (if d < 1 / 2 then f else if 1 / 2 < d then f + 1
                        else if even f then f else f + 1)"
    by (simp add: round_even_def Let_def f_def d_def)
  then show ?thesis
    using d by (auto simp add: y)
qed

lemma fl_pos_eq:
  "0 < x \<Longrightarrow> fl x = of_int (round_even (x * 2 powi (52 - binade x))) * 2 powi (binade x - 52)"
  by (simp add: fl_def)

lemma fl_positive:
  assumes "0 < x"
  shows "0 < fl x"
proof -
  have "2 powi binade x * 2 powi (52 - binade x) \<le> x * 2 powi (52 - binade x)"
    using binade_bounds [OF assms] by (simp add: mult_right_mono)
  moreover have "2 powi binade x * 2 powi (52 - binade x) = (2::rat) powi 52"
    by (simp add: power_int_add [symmetric])
  ultimately have "of_int 1 \<le> x * 2 powi (52 - binade x)"
    by simp
  then have "1 \<le> round_even (x * 2 powi (52 - binade x))"
    by (rule round_even_ge)
  then show ?thesis
    by (simp add: fl_pos_eq [OF assms] zero_less_mult_iff)
qed

lemma fl_upper:
  assumes "0 < x" "x \<le> of_int k" "binade x \<le> 52"
  shows "fl x \<le> of_int k"
proof -
  define e where "e = binade x"
  have s: "(2::rat) powi (52 - e) = of_int (2 ^ nat (52 - e))"
    using assms(3) by (simp add: e_def power_int_def)
  have "x * 2 powi (52 - e) \<le> of_int k * 2 powi (52 - e)"
    using assms(2) by (simp add: mult_right_mono)
  also have "\<dots> = of_int (k * 2 ^ nat (52 - e))"
    by (simp add: s)
  finally have "round_even (x * 2 powi (52 - e)) \<le> k * 2 ^ nat (52 - e)"
    by (rule round_even_le)
  then have "(of_int (round_even (x * 2 powi (52 - e))) :: rat) \<le> of_int (k * 2 ^ nat (52 - e))"
    by (simp only: of_int_le_iff)
  then have "of_int (round_even (x * 2 powi (52 - e))) * 2 powi (e - 52)
               \<le> (of_int (k * 2 ^ nat (52 - e)) :: rat) * 2 powi (e - 52)"
    by (simp add: mult_right_mono)
  also have "\<dots> = of_int k * (2 powi (52 - e) * 2 powi (e - 52))"
    by (simp add: s)
  also have "\<dots> = of_int k"
    by (simp add: power_int_add [symmetric])
  finally show ?thesis
    by (simp add: fl_pos_eq [OF assms(1)] e_def)
qed

lemma binade_less:
  assumes "0 < x" "x < 2 powi k"
  shows "binade x < k"
proof (rule ccontr)
  assume "\<not> binade x < k"
  then have "(2::rat) powi k \<le> 2 powi binade x"
    by (intro power_int_increasing) simp_all
  also have "\<dots> \<le> x"
    using binade_bounds [OF assms(1)] by simp
  finally show False using assms(2) by simp
qed

lemma fl_zero [simp]: "fl 0 = 0"
  by (simp add: fl_def)

lemma fl_unit_interval:
  assumes "0 < x" "x \<le> 1"
  shows "0 < fl x \<and> fl x \<le> 1"
proof -
  have "x < 2 powi 1" using assms(2) by simp
  then have "binade x < 1" by (rule binade_less [OF assms(1)])
  then have "fl x \<le> of_int 1"
    using assms by (intro fl_upper) simp_all
  then show ?thesis using fl_positive [OF assms(1)] by simp
qed

lemma fl_percent_interval:
  assumes "0 < y" "y \<le> 100"
  shows "0 < fl y \<and> fl y \<le> 100"
proof -
  have "y < 2 powi 7" using assms(2) by simp
  then have "binade y < 7" by (rule binade_less [OF assms(1)])
  then have "fl y \<le> of_int 100"
    using assms by (intro fl_upper) simp_all
  then show ?thesis using fl_positive [OF assms(1)] by simp
qed

lemma percentage_range:
  assumes "c \<le> n" "0 < n"
  shows "0 \<le> Math_round (fl (fl (of_nat c / of_nat n) * 100)) \<and>
         Math_round (fl (fl (of_nat c / of_nat n) * 100)) \<le> 100"
proof (cases "c = 0")
  case True
  then show ?thesis by (simp add: Math_round_def)
next
  case False
  have x: "0 < (of_nat c / of_nat n :: rat)" "(of_nat c / of_nat n :: rat) \<le> 1"
    using assms False by simp_all
  from fl_unit_interval [OF x]
  have "0 < fl (of_nat c / of_nat n) * 100" "fl (of_nat c / of_nat n) * 100 \<le> 100"
    by simp_all
  from fl_percent_interval [OF this]
  have y: "0 < fl (fl (of_nat c / of_nat n) * 100)" "fl (fl (of_nat c / of_nat n) * 100) \<le> 100"
    by simp_all
  have "0 \<le> \<lfloor>fl (fl (of_nat c / of_nat n) * 100) + 1 / 2\<rfloor>"
    using y(1) by simp
  moreover have "\<lfloor>fl (fl (of_nat c / of_nat n) * 100) + 1 / 2\<rfloor> \<le> 100"
    using y(2) by (simp add: floor_le_iff)
  ultimately show ?thesis by (simp add: Math_round_def)
qed

lemma fl_error:
  assumes "0 < x"
  shows "\<bar>fl x - x\<bar> \<le> x / 2 ^ 53"
proof -
  define e where "e = binade x"
  define m where "m = round_even (x * 2 powi (52 - e))"
  have x: "x = (x * 2 powi (52 - e)) * 2 powi (e - 52)"
    by (simp add: power_int_add [symmetric])
  have "fl x - x = (of_int m - x * 2 powi (52 - e)) * 2 powi (e - 52)"
    by (subst (2) x) (simp add: fl_pos_eq [OF assms] e_def m_def algebra_simps)
  then have "\<bar>fl x - x\<bar> = \<bar>of_int m - x * 2 powi (52 - e)\<bar> * 2 powi (e - 52)"
    by (simp add: abs_mult)
  also have "\<dots> \<le> (1 / 2) * 2 powi (e - 52)"
    unfolding m_def by (intro mult_right_mono round_even_error) simp
  also have "\<dots> = 2 powi e / 2 ^ 53"
    by (simp add: power_int_diff)
  also have "\<dots> \<le> x / 2 ^ 53"
    using binade_bounds [OF assms] by (simp add: e_def divide_right_mono)
  finally show ?thesis .
qed

lemma percentage_error:
  assumes "0 < x" "x \<le> 1"
  shows "\<bar>fl (fl x * 100) - 100 * x\<bar> < 1 / 2 ^ 45"
proof -
  define u :: rat where "u = 1 / 2 ^ 53"
  have u: "0 < u" by (simp add: u_def)
  have x1: "\<bar>fl x - x\<bar> \<le> x * u"
    using fl_error [OF assms(1)] by (simp add: u_def)
  have p: "0 < fl x * 100"
    using fl_unit_interval [OF assms] by simp
  have y1: "\<bar>fl (fl x * 100) - fl x * 100\<bar> \<le> fl x * 100 * u"
    using fl_error [OF p] by (simp add: u_def)
  have fx: "fl x \<le> x * (1 + u)"
    using x1 by (simp add: abs_le_iff algebra_simps)
  have "\<bar>fl (fl x * 100) - 100 * x\<bar>
          \<le> \<bar>fl (fl x * 100) - fl x * 100\<bar> + 100 * \<bar>fl x - x\<bar>"
    by (simp add: abs_le_iff abs_if) 
  also have "\<dots> \<le> fl x * 100 * u + 100 * (x * u)"
    using y1 x1 by simp
  also have "\<dots> \<le> x * (1 + u) * 100 * u + 100 * (x * u)"
    using fx u by (simp add: mult_right_mono)
  also have "\<dots> = x * (100 * u * (2 + u))"
    by (simp add: algebra_simps)
  also have "\<dots> \<le> 1 * (100 * u * (2 + u))"
    using assms(2) u by (intro mult_right_mono) simp_all
  also have "\<dots> < 1 / 2 ^ 45"
    by (simp add: u_def)
  finally show ?thesis .
qed

lemma binade_unique:
  assumes "0 < x" "2 powi e \<le> x" "x < 2 powi (e + 1)"
  shows "binade x = e"
proof -
  have "binade x < e + 1"
    using assms(1,3) by (rule binade_less)
  moreover have "e < binade x + 1"
  proof (rule ccontr)
    assume "\<not> e < binade x + 1"
    then have "(2::rat) powi (binade x + 1) \<le> 2 powi e"
      by (intro power_int_increasing) simp_all
    with assms(2) binade_bounds [OF assms(1)] show False by simp
  qed
  ultimately show ?thesis by simp
qed

lemma round_even_nearest:
  assumes "of_int m - 1 / 2 < y" "y < of_int m + 1 / 2"
  shows "round_even y = m"
proof -
  have "of_int (m - 1) \<le> y" "y < of_int (m + 1)"
    using assms by simp_all
  then have "m - 1 \<le> \<lfloor>y\<rfloor>" "\<lfloor>y\<rfloor> < m + 1"
    by (simp_all only: le_floor_iff floor_less_iff)
  then consider "\<lfloor>y\<rfloor> = m" | "\<lfloor>y\<rfloor> = m - 1"
    by linarith
  then show ?thesis
  proof cases
    case 1
    then show ?thesis
      using assms by (simp add: round_even_def Let_def)
  next
    case 2
    then show ?thesis
      using assms by (simp add: round_even_def Let_def)
  qed
qed

lemma fl_eval:
  assumes "0 < x" "2 powi e \<le> x" "x < 2 powi (e + 1)"
    and "of_int m - 1 / 2 < x * 2 powi (52 - e)" "x * 2 powi (52 - e) < of_int m + 1 / 2"
  shows "fl x = of_int m * 2 powi (e - 52)"
  using round_even_nearest [OF assms(4,5)]
  by (simp add: fl_pos_eq [OF assms(1)] binade_unique [OF assms(1-3)])

lemma fl_23_40: "fl (23 / 40) = 2589569785738035 / 4503599627370496"
proof -
  have "fl (23 / 40) = of_int 5179139571476070 * 2 powi (- 1 - 52)"
    by (rule fl_eval) (simp_all add: power_int_minus)
  then show ?thesis by (simp add: power_int_minus)
qed

lemma floor_stable:
  fixes A D :: int and delta :: rat
  assumes D: "0 < D" and delta: "\<bar>delta\<bar> < 1 / of_int D"
  defines "T \<equiv> of_int A / of_int D"
  shows "(\<lfloor>T + delta\<rfloor> = \<lfloor>T\<rfloor> \<or> \<lfloor>T + delta\<rfloor> = \<lfloor>T\<rfloor> - 1) \<and>
         (T \<notin> \<int> \<longrightarrow> \<lfloor>T + delta\<rfloor> = \<lfloor>T\<rfloor>)"
proof -
  define k where "k = \<lfloor>T\<rfloor>"
  define N where "N = A - D * k"
  have Dr: "0 < (of_int D :: rat)" using D by simp
  have k: "of_int k \<le> T" "T < of_int k + 1"
    unfolding k_def by linarith+
  have TN: "T = of_int k + of_int N / of_int D"
    using D by (simp add: T_def N_def field_simps)
  have "0 \<le> (of_int N :: rat) / of_int D" "(of_int N :: rat) / of_int D < 1"
    using k TN by simp_all
  then have N: "0 \<le> N" "N < D"
    using Dr by (simp_all add: zero_le_divide_iff)
  have small: "1 / (of_int D :: rat) \<le> 1"
    using D by simp
  show ?thesis
  proof (cases "N = 0")
    case True
    then have Tk: "T = of_int k" by (simp add: TN)
    have "of_int (k - 1) \<le> T + delta" "T + delta < of_int k + 1"
      using delta small by (simp_all add: Tk abs_less_iff)
    then have "\<lfloor>T + delta\<rfloor> = k \<or> \<lfloor>T + delta\<rfloor> = k - 1"
      by (cases "delta < 0") (auto simp add: Tk floor_unique)
    moreover have "T \<in> \<int>" by (simp add: Tk)
    ultimately show ?thesis by (simp add: k_def)
  next
    case False
    with N have N1: "1 \<le> N" "1 \<le> D - N" by simp_all
    then have "(of_int 1 :: rat) \<le> of_int N" "(of_int 1 :: rat) \<le> of_int (D - N)"
      by (simp_all only: of_int_le_iff)
    then have "1 / of_int D \<le> (of_int N :: rat) / of_int D"
      "(of_int N :: rat) / of_int D \<le> 1 - 1 / of_int D"
      using Dr by (simp_all add: divide_right_mono field_simps)
    then have "of_int k \<le> T + delta" "T + delta < of_int k + 1"
      using delta by (simp_all add: TN abs_less_iff)
    then have "\<lfloor>T + delta\<rfloor> = k"
      by (rule floor_unique)
    then show ?thesis by (simp add: k_def)
  qed
qed

lemma updateProgress_near:
  assumes n: "0 < n" "n \<le> 2 ^ 44" and c: "c \<le> n"
  defines "T \<equiv> (100 * of_nat c / of_nat n + 1 / 2 :: rat)"
  defines "p \<equiv> Math_round (fl (fl (of_nat c / of_nat n) * 100))"
  shows "(p = \<lfloor>T\<rfloor> \<or> p = \<lfloor>T\<rfloor> - 1) \<and> (T \<notin> \<int> \<longrightarrow> p = \<lfloor>T\<rfloor>)"
proof (cases "c = 0")
  case True
  then show ?thesis by (simp add: p_def T_def Math_round_def)
next
  case False
  define x :: rat where "x = of_nat c / of_nat n"
  define delta where "delta = fl (fl x * 100) - 100 * x"
  have x: "0 < x" "x \<le> 1"
    using n c False by (simp_all add: x_def)
  have D: "0 < 2 * int n" using n by simp
  have "(of_nat n :: rat) \<le> of_nat (2 ^ 44)"
    using n(2) by (simp only: of_nat_le_iff)
  then have "(of_int (2 * int n) :: rat) \<le> 2 ^ 45"
    by simp
  then have "1 / 2 ^ 45 \<le> 1 / (of_int (2 * int n) :: rat)"
    using n(1) by (intro divide_left_mono) simp_all
  then have d: "\<bar>delta\<bar> < 1 / of_int (2 * int n)"
    using percentage_error [OF x] by (simp add: delta_def)
  have T: "T = of_int (200 * int c + int n) / of_int (2 * int n)"
    using n(1) by (simp add: T_def field_simps)
  have e: "fl (fl (of_nat c / of_nat n) * 100) + 1 / 2 = T + delta"
    by (simp add: T_def delta_def x_def)
  have p: "p = \<lfloor>T + delta\<rfloor>"
    unfolding p_def Math_round_def e ..
  show ?thesis
    unfolding p T by (rule floor_stable [OF D d])
qed

text \<open>
  C7, as amended. For every habit list \<open>updateProgress\<close> shows 0 when there is no habit,
  and otherwise \<^verbatim>\<open>Math.round\<close> of the double product \<^verbatim>\<open>(completedCount / length) * 100\<close>,
  an integer from 0 to 100. For a list of at most \<open>2^44\<close> habits this is the exact
  quotient \<open>100 * completedCount / length\<close> rounded to the nearest integer whenever the
  quotient is not half-way between two integers; at a half-way quotient it is that
  rounding (the larger neighbour) or one less.
\<close>

theorem updateProgress_spec:
  "(length (habits s) = 0 \<longrightarrow> updateProgress s = 0) \<and>
   0 \<le> updateProgress s \<and> updateProgress s \<le> 100 \<and>
   (0 < length (habits s) \<and> length (habits s) \<le> 2 ^ 44 \<longrightarrow>
      (updateProgress s
         = Math_round (100 * of_nat (length (filter completed (habits s))) / of_nat (length (habits s))) \<or>
       updateProgress s
         = Math_round (100 * of_nat (length (filter completed (habits s))) / of_nat (length (habits s))) - 1) \<and>
      (100 * of_nat (length (filter completed (habits s))) / of_nat (length (habits s)) + 1 / 2 \<notin> (\<int> :: rat set) \<longrightarrow>
         updateProgress s
           = Math_round (100 * of_nat (length (filter completed (habits s))) / of_nat (length (habits s)))))"
proof (cases "length (habits s) = 0")
  case True
  then show ?thesis by (simp add: updateProgress_def)
next
  case False
  then have n: "0 < length (habits s)" by simp
  have c: "length (filter completed (habits s)) \<le> length (habits s)"
    by simp
  have u: "updateProgress s =
      Math_round (fl (fl (of_nat (length (filter completed (habits s))) / of_nat (length (habits s))) * 100))"
    using False by (simp add: updateProgress_def Let_def)
  have range: "0 \<le> updateProgress s \<and> updateProgress s \<le> 100"
    unfolding u by (rule percentage_range [OF c n])
  have near: "(updateProgress s
         = Math_round (100 * of_nat (length (filter completed (habits s))) / of_nat (length (habits s))) \<or>
       updateProgress s
         = Math_round (100 * of_nat (length (filter completed (habits s))) / of_nat (length (habits s))) - 1) \<and>
      (100 * of_nat (length (filter completed (habits s))) / of_nat (length (habits s)) + 1 / 2 \<notin> (\<int> :: rat set) \<longrightarrow>
         updateProgress s
           = Math_round (100 * of_nat (length (filter completed (habits s))) / of_nat (length (habits s))))"
    if "length (habits s) \<le> 2 ^ 44"
    using updateProgress_near [OF n that c] by (simp add: u Math_round_def)
  from range near False show ?thesis by blast
qed

lemma example_forty_counts:
  "length (habits example_forty) = 40"
  "length (filter completed (habits example_forty)) = 23"
  by (simp_all add: example_forty_def example_entry_def filter_map comp_def)

lemma fl_product: "fl (fl (23 / 40) * 100) = 8092405580431359 / 140737488355328"
proof -
  have "fl (64739244643450875 / 1125899906842624) = of_int 8092405580431359 * 2 powi (5 - 52)"
    by (rule fl_eval) (simp_all add: power_int_minus)
  then show ?thesis by (simp add: fl_23_40 power_int_minus)
qed

lemma Math_round_product: "Math_round (8092405580431359 / 140737488355328) = 57"
  unfolding Math_round_def by (rule floor_unique) simp_all

text \<open>
  With 23 of 40 habits completed the exact quotient is 57.5, which rounds to 58; the
  double quotient 23 / 40 lies below 0.575, its product with 100 is the double just
  below 57.5, and the page shows 57.
\<close>

theorem updateProgress_double_rounding:
  "length (habits example_forty) = 40 \<and>
   length (filter completed (habits example_forty)) = 23 \<and>
   updateProgress example_forty = 57 \<and>
   Math_round (100 * 23 / 40) = 58"
proof -
  have "updateProgress example_forty = Math_round (fl (fl (23 / 40) * 100))"
    by (simp add: updateProgress_def Let_def example_forty_counts)
  then have "updateProgress example_forty = 57"
    by (simp only: fl_product Math_round_product)
  moreover have "Math_round (100 * 23 / 40) = 58"
    by (simp add: Math_round_def)
  ultimately show ?thesis
    by (simp add: example_forty_counts)
qed

lemma example_list_counts:
  "length (habits example_three) = 3"
  "length (filter completed (habits example_three)) = 1"
  by (simp_all add: example_three_def example_list_def)

lemma third_not_half: "(100 * of_nat 1 / of_nat 3 + 1 / 2 :: rat) \<notin> \<int>"
proof
  assume "(100 * of_nat 1 / of_nat 3 + 1 / 2 :: rat) \<in> \<int>"
  then obtain k :: int where "(100 * of_nat 1 / of_nat 3 + 1 / 2 :: rat) = of_int k"
    by (auto elim: Ints_cases)
  then have "(203 :: rat) = of_int (6 * k)"
    by (simp add: field_simps)
  then have "(203 :: int) = 6 * k"
    by (metis of_int_eq_iff of_int_numeral)
  then show False by presburger
qed

lemma Math_round_third: "Math_round (100 * of_nat 1 / of_nat 3) = 33"
  unfolding Math_round_def by (rule floor_unique) simp_all

theorem updateProgress_spec_witness:
  "updateProgress init_state = 0 \<and>
   0 \<le> updateProgress example_three \<and>
   updateProgress example_three \<le> 100 \<and>
   updateProgress example_three = 33"
proof -
  have "updateProgress example_three = 33"
    using updateProgress_spec [of "example_three"]
      third_not_half
    unfolding example_list_counts Math_round_third
    by simp
  then show ?thesis
    using updateProgress_spec [of init_state] by (simp add: init_state_def)
qed

end
